theory Spec2Isabelle
  imports Complex_Main "HOL-Library.Log_Nat"
begin

section \<open>JavaScript strings\<close>

text \<open>
  A JavaScript string is modelled as a \<^typ>\<open>string\<close>: a list of code units below 256.
  \<open>is_ws\<close> is the white space of \<open>String.prototype.trim\<close> and of the class \<open>\s\<close>
  in that range (tab, line feed, vertical tab, form feed, carriage return, space, no-break space);
  \<open>is_lt\<close> is the line terminators the pattern \<open>.\<close> refuses and the anchors
  \<open>^\<close>, \<open>$\<close> of a multiline expression look at.
\<close>

definition is_lt :: "char \<Rightarrow> bool" where
  "is_lt c = (c = CHR 0x0A \<or> c = CHR 0x0D)"

definition is_ws :: "char \<Rightarrow> bool" where
  "is_ws c = (c = CHR 0x09 \<or> c = CHR 0x0A \<or> c = CHR 0x0B \<or> c = CHR 0x0C \<or> c = CHR 0x0D
              \<or> c = CHR 0x20 \<or> c = CHR 0xA0)"

definition is_digit :: "char \<Rightarrow> bool" where
  "is_digit c = (let n = (of_char c :: nat) in 48 \<le> n \<and> n \<le> 57)"

text \<open>The canonical form of a character under the flag \<open>i\<close>: an ASCII letter in upper case.\<close>

definition canon :: "char \<Rightarrow> char" where
  "canon c = (let n = (of_char c :: nat) in if 97 \<le> n \<and> n \<le> 122 then char_of (n - 32) else c)"

definition trim :: "string \<Rightarrow> string" where
  "trim s = rev (dropWhile is_ws (rev (dropWhile is_ws s)))"

text \<open>\<open>String.prototype.split\<close> with a string separator.\<close>

fun split_from :: "string \<Rightarrow> string \<Rightarrow> string \<Rightarrow> string list" where
  "split_from sep acc [] = [acc]"
| "split_from [] acc (x # xs) = split_from [] (acc @ [x]) xs"
| "split_from (y # ys) acc (x # xs) =
     (if take (Suc (length ys)) (x # xs) = y # ys
      then acc # split_from (y # ys) [] (drop (length ys) xs)
      else split_from (y # ys) (acc @ [x]) xs)"

definition split_str :: "string \<Rightarrow> string \<Rightarrow> string list" where
  "split_str sep s = (if sep = [] then map (\<lambda>c. [c]) s else split_from sep [] s)"

definition join :: "string \<Rightarrow> string list \<Rightarrow> string" where
  "join sep xs = (case xs of [] \<Rightarrow> [] | y # ys \<Rightarrow> y @ concat (map (\<lambda>z. sep @ z) ys))"

text \<open>The decimal digits of a natural number, as string concatenation writes a count.\<close>

fun show_nat :: "nat \<Rightarrow> string" where
  "show_nat n = (if n < 10 then [char_of (48 + n)] else show_nat (n div 10) @ [char_of (48 + n mod 10)])"

declare show_nat.simps [simp del]

section \<open>Regular expressions\<close>

text \<open>
  The regular expressions of \<open>main.js\<close> use literal characters (under the flag \<open>i\<close>
  or not), the classes \<open>\s\<close>, \<open>\d\<close> and \<open>.\<close>, the quantifiers \<open>*\<close>, \<open>*?\<close>, \<open>+\<close> and
  \<open>?\<close> on one character, the anchors \<open>^\<close> and \<open>$\<close>, and groups of alternatives. An
  expression is a list of \<open>rx\<close> items; \<open>Grp n alts\<close> is the group with number \<open>n\<close> (0 for a
  group that does not capture). \<open>Close n s0\<close> is not written in an expression: the matcher
  puts it behind the body of group \<open>n\<close> entered at the input \<open>s0\<close>.
\<close>

datatype atom = C char | CI char | WS | D | Any

fun am :: "atom \<Rightarrow> char \<Rightarrow> bool" where
  "am (C c) x = (x = c)"
| "am (CI c) x = (canon x = canon c)"
| "am WS x = is_ws x"
| "am D x = is_digit x"
| "am Any x = (\<not> is_lt x)"

datatype rx = A atom | Star atom | Lazy atom | Plus atom | Opt atom | Bol | Eol
  | Grp nat "rx list list" | Close nat string

type_synonym caps = "string option list"

fun rsz :: "rx \<Rightarrow> nat" where
  "rsz (Grp n alts) = Suc (Suc (sum_list (map (\<lambda>alt. Suc (sum_list (map rsz alt))) alts)))"
| "rsz (Plus a) = 3"
| "rsz _ = 1"

text \<open>
  The backtracking matcher of ECMAScript, on the items still to match: \<open>m ml k p i s c\<close>
  matches the items \<open>k\<close> against the input \<open>s\<close>, where \<open>p\<close> is the character before \<open>s\<close>
  (\<open>None\<close> at the start of the string), \<open>i\<close> the number of characters the match has
  consumed so far, \<open>c\<close> the captures and \<open>ml\<close> the flag \<open>m\<close>. It returns the length of the
  first match in backtracking order with its captures, or \<open>None\<close>.
\<close>

function m :: "bool \<Rightarrow> rx list \<Rightarrow> char option \<Rightarrow> nat \<Rightarrow> string \<Rightarrow> caps \<Rightarrow> (nat \<times> caps) option" where
  "m ml [] p i s c = Some (i, c)"
| "m ml (A a # k) p i [] c = None"
| "m ml (A a # k) p i (x # xs) c = (if am a x then m ml k (Some x) (Suc i) xs c else None)"
| "m ml (Star a # k) p i [] c = m ml k p i [] c"
| "m ml (Star a # k) p i (x # xs) c =
     (if am a x
      then (case m ml (Star a # k) (Some x) (Suc i) xs c of
              Some r \<Rightarrow> Some r
            | None \<Rightarrow> m ml k p i (x # xs) c)
      else m ml k p i (x # xs) c)"
| "m ml (Lazy a # k) p i [] c = m ml k p i [] c"
| "m ml (Lazy a # k) p i (x # xs) c =
     (case m ml k p i (x # xs) c of
        Some r \<Rightarrow> Some r
      | None \<Rightarrow> if am a x then m ml (Lazy a # k) (Some x) (Suc i) xs c else None)"
| "m ml (Plus a # k) p i s c = m ml (A a # Star a # k) p i s c"
| "m ml (Opt a # k) p i [] c = m ml k p i [] c"
| "m ml (Opt a # k) p i (x # xs) c =
     (if am a x
      then (case m ml k (Some x) (Suc i) xs c of
              Some r \<Rightarrow> Some r
            | None \<Rightarrow> m ml k p i (x # xs) c)
      else m ml k p i (x # xs) c)"
| "m ml (Bol # k) None i s c = m ml k None i s c"
| "m ml (Bol # k) (Some y) i s c = (if ml \<and> is_lt y then m ml k (Some y) i s c else None)"
| "m ml (Eol # k) p i [] c = m ml k p i [] c"
| "m ml (Eol # k) p i (x # xs) c = (if ml \<and> is_lt x then m ml k p i (x # xs) c else None)"
| "m ml (Grp n [] # k) p i s c = None"
| "m ml (Grp n (alt # alts) # k) p i s c =
     (case m ml (alt @ Close n s # k) p i s c of
        Some r \<Rightarrow> Some r
      | None \<Rightarrow> m ml (Grp n alts # k) p i s c)"
| "m ml (Close n s0 # k) p i s c = m ml k p i s (c[n := Some (take (length s0 - length s) s0)])"
  by pat_completeness auto
termination
  by (relation "measures [\<lambda>(ml, k, p, i, s, c). length s, \<lambda>(ml, k, p, i, s, c). sum_list (map rsz k)]") auto

text \<open>
  A regular expression object: its items, the number of its capturing groups and the flag
  \<open>m\<close>. The flag \<open>i\<close> is in the atoms (\<open>CI\<close>); the flag \<open>g\<close> is in the operation applied.
\<close>

record regex =
  items :: "rx list"
  groups :: nat
  multiline :: bool

definition lit :: "string \<Rightarrow> rx list" where
  "lit s = map (\<lambda>c. A (C c)) s"

definition liti :: "string \<Rightarrow> rx list" where
  "liti s = map (\<lambda>c. A (CI c)) s"

text \<open>
  The first position at or after the current one where the expression matches: its offset,
  the length of the match and the captures.
\<close>

fun search :: "bool \<Rightarrow> rx list \<Rightarrow> caps \<Rightarrow> char option \<Rightarrow> string \<Rightarrow> (nat \<times> nat \<times> caps) option" where
  "search ml re c0 p [] = (case m ml re p 0 [] c0 of None \<Rightarrow> None | Some (j, c) \<Rightarrow> Some (0, j, c))"
| "search ml re c0 p (x # xs) =
     (case m ml re p 0 (x # xs) c0 of
        Some (j, c) \<Rightarrow> Some (0, j, c)
      | None \<Rightarrow> (case search ml re c0 (Some x) xs of
                   None \<Rightarrow> None
                 | Some (d, j, c) \<Rightarrow> Some (Suc d, j, c)))"

definition no_caps :: "regex \<Rightarrow> caps" where
  "no_caps re = replicate (Suc (groups re)) None"

text \<open>
  \<open>RegExp.prototype.exec\<close> on a fresh expression (\<open>lastIndex\<close> 0): \<open>None\<close> is \<open>null\<close>,
  otherwise the match array, whose entry 0 is the whole match.
\<close>

definition js_exec :: "regex \<Rightarrow> string \<Rightarrow> caps option" where
  "js_exec re s =
     (case search (multiline re) (items re) (no_caps re) None s of
        None \<Rightarrow> None
      | Some (d, j, c) \<Rightarrow> Some (c[0 := Some (take j (drop d s))]))"

text \<open>An entry of a match array; \<open>None\<close> is \<open>undefined\<close>.\<close>

definition grp :: "caps \<Rightarrow> nat \<Rightarrow> string option" where
  "grp c n = (if n < length c then c ! n else None)"

definition prev_after :: "char option \<Rightarrow> string \<Rightarrow> nat \<Rightarrow> char option" where
  "prev_after p s j =
     (if j = 0 then p else (case drop (j - 1) s of [] \<Rightarrow> p | y # ys \<Rightarrow> Some y))"

fun push_front :: "char \<Rightarrow> (string \<times> caps) list \<times> string \<Rightarrow> (string \<times> caps) list \<times> string" where
  "push_front x ([], r) = ([], x # r)"
| "push_front x ((pre, c) # ms, r) = ((x # pre, c) # ms, r)"

text \<open>
  The matches of an expression with the flag \<open>g\<close>, from left to right, as
  \<open>String.prototype.match\<close>, \<open>matchAll\<close> and \<open>replace\<close> find them: each match with the text
  between the match before it and itself, and the text behind the last match. After an empty
  match the search goes on one character further.
\<close>

function js_scan :: "regex \<Rightarrow> char option \<Rightarrow> string \<Rightarrow> (string \<times> caps) list \<times> string" where
  "js_scan re p [] =
     (case search (multiline re) (items re) (no_caps re) p [] of
        None \<Rightarrow> ([], [])
      | Some (d, j, c) \<Rightarrow> ([([], c[0 := Some []])], []))"
| "js_scan re p (x # xs) =
     (case search (multiline re) (items re) (no_caps re) p (x # xs) of
        None \<Rightarrow> ([], x # xs)
      | Some (d, j, c) \<Rightarrow>
          (let pre = take d (x # xs);
               c' = c[0 := Some (take j (drop d (x # xs)))]
           in if j = 0
              then (case drop d (x # xs) of
                      [] \<Rightarrow> ([(pre, c')], [])
                    | y # ys \<Rightarrow>
                        (case push_front y (js_scan re (Some y) (drop d xs)) of
                           (ms, r) \<Rightarrow> ((pre, c') # ms, r)))
              else (case js_scan re (prev_after p (x # xs) (d + j)) (drop (d + j - 1) xs) of
                      (ms, r) \<Rightarrow> ((pre, c') # ms, r))))"
  by pat_completeness auto
termination
  by (relation "measure (\<lambda>(re, p, s). length s)") auto

definition js_match_all :: "regex \<Rightarrow> string \<Rightarrow> caps list" where
  "js_match_all re s = map snd (fst (js_scan re None s))"

text \<open>\<open>s.match(re)\<close> with the flag \<open>g\<close>: \<open>null\<close> when nothing matches, else the matched texts.\<close>

definition js_match_g :: "regex \<Rightarrow> string \<Rightarrow> string list option" where
  "js_match_g re s =
     (case js_match_all re s of
        [] \<Rightarrow> None
      | c # cs \<Rightarrow> Some (map (\<lambda>c. case grp c 0 of None \<Rightarrow> [] | Some t \<Rightarrow> t) (c # cs)))"

text \<open>\<open>s.replace(re, r)\<close> with the flag \<open>g\<close>, for a replacement \<open>r\<close> without \<open>$\<close>.\<close>

definition js_replace_all :: "regex \<Rightarrow> string \<Rightarrow> string \<Rightarrow> string" where
  "js_replace_all re r s =
     (case js_scan re None s of (ms, rest) \<Rightarrow> concat (map (\<lambda>(pre, c). pre @ r) ms) @ rest)"

text \<open>\<open>s.replace(re, r)\<close> without the flag \<open>g\<close>: the first match only.\<close>

definition js_replace :: "regex \<Rightarrow> string \<Rightarrow> string \<Rightarrow> string" where
  "js_replace re r s =
     (case search (multiline re) (items re) (no_caps re) None s of
        None \<Rightarrow> s
      | Some (d, j, c) \<Rightarrow> take d s @ r @ drop (d + j) s)"

text \<open>
  \<open>s.split(re)\<close> for an expression without capturing groups (\<open>RegExp.prototype[@@split]\<close>):
  the expression is tried at each position \<open>q\<close> before the end; \<open>acc\<close> is the text from the
  end \<open>p\<close> of the last separator to \<open>q\<close>. A match that ends at \<open>p\<close> is passed over.
\<close>

function split_loop :: "regex \<Rightarrow> char option \<Rightarrow> string \<Rightarrow> string \<Rightarrow> string list" where
  "split_loop re p acc [] = [acc]"
| "split_loop re p acc (x # xs) =
     (case m (multiline re) (items re) p 0 (x # xs) (no_caps re) of
        None \<Rightarrow> split_loop re (Some x) (acc @ [x]) xs
      | Some (j, c) \<Rightarrow>
          if j = 0 then
            (if acc = [] then split_loop re (Some x) [x] xs
             else acc # split_loop re p [] (x # xs))
          else acc # split_loop re (prev_after p (x # xs) j) [] (drop (j - 1) xs))"
  by pat_completeness auto
termination
  by (relation "measures [\<lambda>(re, p, acc, s). length s, \<lambda>(re, p, acc, s). length acc]") auto

definition js_split :: "regex \<Rightarrow> string \<Rightarrow> string list" where
  "js_split re s =
     (if s = []
      then (case m (multiline re) (items re) None 0 [] (no_caps re) of
              None \<Rightarrow> [[]]
            | Some r \<Rightarrow> [])
      else split_loop re None [] s)"

section \<open>JavaScript numbers\<close>

text \<open>
  A Number is an IEEE 754 double: \<open>Num x\<close> is the finite double of value \<open>x\<close> (the two
  zeros are one value: the program only prints numbers), and \<open>fl\<close> rounds a rational to the
  nearest double, ties to even, as every arithmetic operation and every conversion from a
  decimal string does. \<open>ilog2 x\<close> is the binary exponent of a positive \<open>x\<close>.
\<close>

datatype number = Num rat | NaN | PosInf | NegInf

definition pow2 :: "int \<Rightarrow> rat" where
  "pow2 e = power_int 2 e"

definition ilog2 :: "rat \<Rightarrow> int" where
  "ilog2 x = (if 1 \<le> x then bitlen \<lfloor>x\<rfloor> - 1 else - bitlen (\<lceil>1 / x\<rceil> - 1))"

definition round_even :: "rat \<Rightarrow> int" where
  "round_even y =
     (let f = \<lfloor>y\<rfloor>; d = y - of_int f
      in if d < 1 / 2 then f else if 1 / 2 < d then f + 1 else if even f then f else f + 1)"

text \<open>The double nearest to a positive rational; \<open>None\<close> when it is beyond the largest one.\<close>

definition fl_pos :: "rat \<Rightarrow> rat option" where
  "fl_pos x =
     (let q = max (ilog2 x) (- 1022) - 52;
          v = of_int (round_even (x / pow2 q)) * pow2 q
      in if pow2 1024 \<le> v then None else Some v)"

definition fl :: "rat \<Rightarrow> number" where
  "fl x =
     (if x = 0 then Num 0
      else if 0 < x then (case fl_pos x of None \<Rightarrow> PosInf | Some v \<Rightarrow> Num v)
      else (case fl_pos (- x) of None \<Rightarrow> NegInf | Some v \<Rightarrow> Num (- v)))"

fun num_neg :: "number \<Rightarrow> number" where
  "num_neg (Num x) = Num (- x)"
| "num_neg NaN = NaN"
| "num_neg PosInf = NegInf"
| "num_neg NegInf = PosInf"

text \<open>The operators \<open>-\<close>, \<open>/\<close> and \<open>*\<close> on Numbers.\<close>

fun num_add :: "number \<Rightarrow> number \<Rightarrow> number" where
  "num_add (Num x) (Num y) = fl (x + y)"
| "num_add NaN b = NaN"
| "num_add a NaN = NaN"
| "num_add PosInf NegInf = NaN"
| "num_add NegInf PosInf = NaN"
| "num_add PosInf b = PosInf"
| "num_add NegInf b = NegInf"
| "num_add a PosInf = PosInf"
| "num_add a NegInf = NegInf"

definition num_sub :: "number \<Rightarrow> number \<Rightarrow> number" where
  "num_sub a b = num_add a (num_neg b)"

definition num_sgn :: "number \<Rightarrow> int" where
  "num_sgn a = (case a of Num x \<Rightarrow> (if x < 0 then - 1 else if x = 0 then 0 else 1)
                | NaN \<Rightarrow> 0 | PosInf \<Rightarrow> 1 | NegInf \<Rightarrow> - 1)"

fun num_mul :: "number \<Rightarrow> number \<Rightarrow> number" where
  "num_mul (Num x) (Num y) = fl (x * y)"
| "num_mul NaN b = NaN"
| "num_mul a NaN = NaN"
| "num_mul a b =
     (let s = num_sgn a * num_sgn b
      in if s = 0 then NaN else if 0 < s then PosInf else NegInf)"

fun num_div :: "number \<Rightarrow> number \<Rightarrow> number" where
  "num_div (Num x) (Num y) =
     (if y = 0 then (if x = 0 then NaN else if 0 < x then PosInf else NegInf) else fl (x / y))"
| "num_div NaN b = NaN"
| "num_div a NaN = NaN"
| "num_div (Num x) b = Num 0"
| "num_div a (Num y) =
     (let s = num_sgn a * (if y < 0 then - 1 else 1) in if 0 < s then PosInf else NegInf)"
| "num_div a b = NaN"

text \<open>The comparison \<open>\<le>\<close> of Numbers, which \<open>NaN\<close> never satisfies.\<close>

fun num_le :: "number \<Rightarrow> number \<Rightarrow> bool" where
  "num_le (Num x) (Num y) = (x \<le> y)"
| "num_le NaN b = False"
| "num_le a NaN = False"
| "num_le NegInf b = True"
| "num_le a PosInf = True"
| "num_le a b = False"

text \<open>
  \<open>+x.toFixed(2)\<close>: \<open>toFixed\<close> writes the integer \<open>n\<close> for which \<open>n / 100\<close> is nearest to
  the value of the double, the larger one of two, and the unary plus reads the decimal
  string back. At \<open>10^21\<close> and beyond, and for a value that is not finite, \<open>toFixed\<close> is
  \<open>toString\<close>, which reads back as the same Number.
\<close>

definition round2 :: "rat \<Rightarrow> rat" where
  "round2 x = (if x < 0 then - (of_int \<lfloor>- x * 100 + 1 / 2\<rfloor> / 100)
               else of_int \<lfloor>x * 100 + 1 / 2\<rfloor> / 100)"

definition to_fixed2 :: "number \<Rightarrow> number" where
  "to_fixed2 a =
     (case a of
        Num x \<Rightarrow> (if 10 ^ 21 \<le> \<bar>x\<bar> then Num x else fl (round2 x))
      | NaN \<Rightarrow> NaN | PosInf \<Rightarrow> PosInf | NegInf \<Rightarrow> NegInf)"

section \<open>The grading program\<close>

text \<open>
  What \<open>main.js\<close> takes from outside is a parameter of the model: the action's inputs
  (\<open>cfg\<close>, the value of each input, empty when it is not set), the built-ins
  \<open>parseFloat\<close> and Number-to-string conversion (\<open>js_builtins\<close>), and what the three child
  processes give back. \<open>core.getInput\<close> raises an error for a required input that is
  empty and trims the value. Console output is left out, except for the rows pushed to the
  console table, which the classifier returns beside the rows of the HTML table; what
  \<open>core.setOutput\<close> receives is kept as the list of result objects handed to it, without the
  two base64 encodings (\<open>btoa\<close>) around the markdown and around the JSON text.
\<close>

datatype js_error = TypeError | RangeError | InputRequired

record js_builtins =
  parseFloat :: "string \<Rightarrow> number"
  numToString :: "number \<Rightarrow> string"

record inputs =
  testName :: string
  testClasses :: "string list"
  setupCommand :: string
  timeout :: number
  maxScore :: number
  libFolder :: string
  partialCredit :: bool
  buildCommand :: string
  runCommand :: string

definition getInput :: "(string \<Rightarrow> string) \<Rightarrow> string \<Rightarrow> bool \<Rightarrow> js_error + string" where
  "getInput cfg n required =
     (if required \<and> cfg n = [] then Inl InputRequired else Inr (trim (cfg n)))"

definition opt_input :: "(string \<Rightarrow> string) \<Rightarrow> string \<Rightarrow> string" where
  "opt_input cfg n = trim (cfg n)"

definition dq :: string where
  "dq = [CHR 0x22]"

definition getInputs :: "js_builtins \<Rightarrow> (string \<Rightarrow> string) \<Rightarrow> js_error + inputs" where
  "getInputs js cfg =
     (case getInput cfg ''test-name'' True of
        Inl e \<Rightarrow> Inl e
      | Inr tn \<Rightarrow>
     (case getInput cfg ''test-class'' True of
        Inl e \<Rightarrow> Inl e
      | Inr tc \<Rightarrow>
          (let classes = split_str ''s*,s*  '' tc;
               to = opt_input cfg ''timeout'';
               ms = opt_input cfg ''max-score'';
               lp = opt_input cfg ''lib-path'';
               lib = (if lp = [] then ''lib'' else lp)
           in Inr \<lparr> testName = tn,
                    testClasses = classes,
                    setupCommand = opt_input cfg ''setup-command'',
                    timeout = num_mul (if to = [] then Num 5 else parseFloat js to) (Num 60000),
                    maxScore = (if ms = [] then Num 0 else parseFloat js ms),
                    libFolder = lib,
                    partialCredit = (opt_input cfg ''partial-credit'' = ''true''),
                    buildCommand = ''javac -cp '' @ dq @ lib @ ''/*'' @ dq @ '' -d . *.java'',
                    runCommand = ''java -cp '' @ dq @ lib @ ''/*:.'' @ dq
                                 @ '' org.junit.runner.JUnitCore '' @ join '' '' classes \<rparr>)))"

record test_entry =
  t_name :: string
  t_status :: string
  t_message :: string
  test_code :: string
  filename :: string
  line_no :: nat
  execution_time :: nat
  score :: "number option"

record result =
  version :: nat
  status :: string
  max_score :: number
  markdown :: string
  tests :: "test_entry list"

text \<open>\<open>x || d\<close> on strings.\<close>

definition or_else :: "string \<Rightarrow> string \<Rightarrow> string" where
  "or_else x d = (if x = [] then d else x)"

definition fence :: "string \<Rightarrow> string" where
  "fence t = ''```\<newline>'' @ t @ ''\<newline>```\<newline>\<newline>''"

subsection \<open>setup\<close>

text \<open>
  What \<open>spawnSync\<close> returns: \<open>error\<close> (its message) when the command could not be run or
  timed out, and the two output buffers (\<open>None\<close> for \<open>null\<close>). \<open>spawnSync\<close> can also throw,
  before any process is started: a \<open>RangeError\<close> when the timeout is not a whole number of
  milliseconds, a \<open>TypeError\<close> when the command is not a valid argument. \<open>setup\<close> has no
  \<open>try\<close>, so the error ends the program.
\<close>

record spawn_result =
  sp_error :: "string option"
  sp_stdout :: "string option"
  sp_stderr :: "string option"

datatype spawn_outcome = Spawn_returned spawn_result | Spawn_threw js_error

definition run_setup :: "inputs \<Rightarrow> spawn_outcome \<Rightarrow> js_error + bool \<times> result list" where
  "run_setup inp so =
     (if setupCommand inp \<noteq> [] then
        (case so of
           Spawn_threw e \<Rightarrow> Inl e
         | Spawn_returned rs \<Rightarrow> Inr
        (case sp_error rs of
           None \<Rightarrow> (True, [])
         | Some msg \<Rightarrow>
             (let md = '':x: Error running setup command\<newline>\<newline>This is probably something that your teacher needs to fix\<newline>\<newline>```shell\<newline>''
                       @ setupCommand inp @ ''\<newline>```\<newline>\<newline>Error: '' @ msg
                       @ (case sp_stdout rs of None \<Rightarrow> []
                          | Some t \<Rightarrow> ''\<newline>\<newline>stdout:\<newline>\<newline>'' @ fence t)
                       @ (case sp_stderr rs of None \<Rightarrow> []
                          | Some t \<Rightarrow> ''\<newline>\<newline>stderr:\<newline>\<newline>'' @ fence t)
              in (False,
                  [\<lparr> version = 1, status = ''error'', max_score = maxScore inp, markdown = md,
                     tests = [\<lparr> t_name = or_else (testName inp) ''Unknown Test'',
                                t_status = ''error'',
                                t_message = ''Error running setup command, see ''
                                  @ or_else (testName inp) ''Unknown Test''
                                  @ '' above for more details'',
                                test_code = or_else (setupCommand inp) ''Unknown Command'',
                                filename = [], line_no = 0, execution_time = 0,
                                score = None \<rparr>] \<rparr>]))))
      else Inr (True, []))"

subsection \<open>build\<close>

text \<open>
  What \<open>execSync\<close> does: it returns the standard output, or throws an error that carries
  the two output buffers (\<open>None\<close> where the error has none, as the error \<open>execSync\<close> throws
  before it starts a process). \<open>build\<close> and \<open>run\<close> catch whatever it throws.
\<close>

record exec_error =
  e_stdout :: "string option"
  e_stderr :: "string option"

datatype exec_result = Returned string | Threw exec_error

definition build :: "inputs \<Rightarrow> exec_result \<Rightarrow> bool \<times> result list" where
  "build inp br =
     (case br of
        Returned out \<Rightarrow> (True, [])
      | Threw err \<Rightarrow>
          (let md = '':x: Error building Java code\<newline>\<newline>''
                    @ (case e_stdout err of None \<Rightarrow> []
                       | Some t \<Rightarrow> if 0 < length t then fence (trim t) else [])
                    @ (case e_stderr err of None \<Rightarrow> []
                       | Some t \<Rightarrow> if 0 < length t then fence (trim t) else [])
           in (False,
               [\<lparr> version = 1, status = ''error'', max_score = maxScore inp, markdown = md,
                  tests = [\<lparr> t_name = or_else (testName inp) ''Unknown Test'',
                             t_status = ''error'',
                             t_message = ''Error building submitted code, see ''
                               @ or_else (testName inp) ''Unknown Test''
                               @ '' above for more details'',
                             test_code = or_else (buildCommand inp) ''Unknown Command'',
                             filename = [], line_no = 0, execution_time = 0,
                             score = None \<rparr>] \<rparr>])))"

subsection \<open>run\<close>

text \<open>The regular expressions of \<open>run\<close>, in the order of the source.\<close>

definition re_summary :: regex where
  "re_summary =
     \<lparr> items = lit ''version'' @ [Star WS, Plus D, A (C CHR ''.''), Plus D,
                 Grp 1 [[A (C CHR ''.''), Plus D]], Opt (C CHR 0x0D), A (C CHR 0x0A),
                 Grp 2 [[Lazy Any]],
                 Grp 3 [[Opt (C CHR 0x0D), A (C CHR 0x0A)], [Eol]]],
       groups = 3, multiline = False \<rparr>"

definition re_period :: regex where
  "re_period = \<lparr> items = [A (C CHR ''.'')], groups = 0, multiline = False \<rparr>"

definition re_E :: regex where
  "re_E = \<lparr> items = [A (CI CHR ''E'')], groups = 0, multiline = False \<rparr>"

definition re_header :: regex where
  "re_header =
     \<lparr> items = [Bol, Plus D, A (C CHR '')''), Star Any, Eol], groups = 0, multiline = True \<rparr>"

definition expected_items :: "nat \<Rightarrow> nat \<Rightarrow> rx list" where
  "expected_items g1 g2 =
     lit ''expected'' @ [Star WS, A (C CHR '':''), Star WS, A (C CHR ''<''),
       Grp g1 [[Star Any]], A (C CHR ''>''), Star WS]
     @ lit ''but was'' @ [Star WS, A (C CHR '':''), Star WS, A (C CHR ''<''),
       Grp g2 [[Star Any]], A (C CHR ''>'')]"

definition re_expected :: regex where
  "re_expected = \<lparr> items = expected_items 1 2, groups = 2, multiline = False \<rparr>"

definition re_assert :: regex where
  "re_assert =
     \<lparr> items = [Grp 1 [lit ''AssertionError'', lit ''ComparisonFailure''], A (C CHR '':''),
                 Grp 2 [[Star Any]]] @ expected_items 3 4,
       groups = 4, multiline = False \<rparr>"

definition re_newline :: regex where
  "re_newline =
     \<lparr> items = [Grp 0 [[A (C CHR 0x0D), A (C CHR 0x0A)], [A (C CHR 0x0D)], [A (C CHR 0x0A)]]],
       groups = 0, multiline = False \<rparr>"

definition re_java_lang :: regex where
  "re_java_lang =
     \<lparr> items = liti ''java.lang.'' @ [Grp 1 [[Star Any]], A (C CHR '':'')],
       groups = 1, multiline = False \<rparr>"

definition re_timed_out :: regex where
  "re_timed_out =
     \<lparr> items = liti ''org.junit.runners.model.TestTimedOutException:'',
       groups = 0, multiline = False \<rparr>"

text \<open>
  A row of the failure table, as the HTML table gets it: three cells for a comparison, one
  cell over the three columns for any other failure.
\<close>

datatype row = Cells string string string | Span string

definition render_row :: "row \<Rightarrow> string" where
  "render_row r =
     (case r of
        Cells a b c \<Rightarrow> ''<tr><td>'' @ a @ ''</td><td>'' @ b @ ''</td><td>'' @ c @ ''</td></tr>''
      | Span t \<Rightarrow> ''<tr><td colspan='' @ dq @ ''3'' @ dq @ ''>'' @ t @ ''</td></tr>'')"

definition nl2br :: "string \<Rightarrow> string" where
  "nl2br t = js_replace_all re_newline ''<br>'' t"

text \<open>A method called on \<open>undefined\<close> throws a \<open>TypeError\<close>.\<close>

definition defined :: "string option \<Rightarrow> js_error + string" where
  "defined v = (case v of None \<Rightarrow> Inl TypeError | Some t \<Rightarrow> Inr t)"

text \<open>
  The body of the loop over the matches (lines 269 to 271): group 2 is trimmed, and the
  match gives one row to the console table, with groups 3 and 4 as they are, and one row to
  the HTML table, with groups 3 and 4 trimmed and their line breaks replaced.
\<close>

definition row_of_match :: "caps \<Rightarrow> js_error + row \<times> row" where
  "row_of_match mt =
     (case defined (grp mt 2) of Inl e \<Rightarrow> Inl e | Inr g2 \<Rightarrow>
      case defined (grp mt 3) of Inl e \<Rightarrow> Inl e | Inr g3 \<Rightarrow>
      case defined (grp mt 4) of Inl e \<Rightarrow> Inl e | Inr g4 \<Rightarrow>
        (let m2 = or_else (trim g2) []
         in Inr (Cells (or_else m2 ''Test failed'') g3 g4,
                 Cells (or_else m2 ''Test failed'') (nl2br (trim g3)) (nl2br (trim g4)))))"

fun collect :: "('a \<Rightarrow> js_error + 'b) \<Rightarrow> 'a list \<Rightarrow> js_error + 'b list" where
  "collect f [] = Inr []"
| "collect f (x # xs) =
     (case f x of
        Inl e \<Rightarrow> Inl e
      | Inr y \<Rightarrow> (case collect f xs of Inl e \<Rightarrow> Inl e | Inr ys \<Rightarrow> Inr (y # ys)))"

text \<open>
  The body of the loop over the failure blocks: the rows a block gives, each as the row
  pushed to the console table and the row appended to the HTML table. \<open>matchAll\<close> returns an
  iterator, which is never falsy: the \<open>else\<close> of \<open>if (matches)\<close> is not reached.
\<close>

definition failure_rows :: "string \<Rightarrow> js_error + (row \<times> row) list" where
  "failure_rows failure =
     (case js_match_g re_expected failure of
        Some ms \<Rightarrow> collect row_of_match (js_match_all re_assert failure)
      | None \<Rightarrow>
          (case split_str [CHR 0x0A] (trim failure) of
             [] \<Rightarrow> Inl TypeError
           | l # ls \<Rightarrow>
               (let msg = trim l;
                    msg = trim (js_replace re_java_lang [] msg);
                    msg = trim (js_replace re_timed_out [] msg)
                in Inr [(Span msg, Span msg)])))"

definition html_head :: string where
  "html_head = ''<table><thead><tr><th>Message</th><th>Expected</th><th>Actual</th></tr></thead><tbody>''"

definition check_mark :: string where
  "check_mark = [CHR 0xE2, CHR 0x9C, CHR 0x85]"

text \<open>\<open>match[2] || ''\<close>.\<close>

definition dots_of :: "caps \<Rightarrow> string" where
  "dots_of mt = (case grp mt 2 of None \<Rightarrow> [] | Some t \<Rightarrow> t)"

text \<open>The score of a failed run (lines 231 to 238).\<close>

definition fail_score :: "inputs \<Rightarrow> nat \<Rightarrow> nat \<Rightarrow> number" where
  "fail_score inp testCount errorCount =
     (if partialCredit inp
      then to_fixed2 (num_mul (num_div (num_sub (Num (of_nat testCount)) (Num (of_nat errorCount)))
                                       (Num (of_nat testCount)))
                              (maxScore inp))
      else Num 0)"

text \<open>
  Lines 223 to 229: the marker line is group 2 of the summary expression, \<open>testCount\<close>
  the number of matches of \<open>/\./g\<close> in it and \<open>errorCount\<close> the number of matches of
  \<open>/E/gi\<close>. \<open>None\<close> is the \<open>TypeError\<close> of reading a property of \<open>null\<close>: of
  \<open>match[2]\<close> when the summary expression does not match, of \<open>.length\<close> when the marker
  line has no period or no \<open>E\<close>.
\<close>

definition marker_counts :: "string \<Rightarrow> (nat \<times> nat) option" where
  "marker_counts stdOut =
     (case js_exec re_summary stdOut of
        None \<Rightarrow> None
      | Some mt \<Rightarrow>
          (case js_match_g re_period (dots_of mt) of
             None \<Rightarrow> None
           | Some ps \<Rightarrow>
               (case js_match_g re_E (dots_of mt) of
                  None \<Rightarrow> None
                | Some es \<Rightarrow> Some (length ps, length es))))"

text \<open>The first line of the markdown of a failed run (lines 241 to 247).\<close>

definition fail_summary :: "js_builtins \<Rightarrow> inputs \<Rightarrow> nat \<Rightarrow> nat \<Rightarrow> number \<Rightarrow> string" where
  "fail_summary js inp testCount errorCount sc =
     (if testCount = errorCount
      then '':x: All '' @ show_nat testCount @ '' tests failed (0 of ''
           @ numToString js (maxScore inp) @ '' points)\<newline>\<newline>''
      else '':x: '' @ show_nat errorCount @ '' of '' @ show_nat testCount
           @ '' tests failed ('' @ numToString js sc @ '' of ''
           @ numToString js (maxScore inp) @ '' points)\<newline>\<newline>'')"

text \<open>
  The \<open>catch\<close> block of \<open>run\<close>, entered with the error \<open>execSync\<close> threw or with the
  \<open>TypeError\<close> of the \<open>try\<close> block, which has no output buffers. It returns the error it
  throws, if any, and what it hands to \<open>core.setOutput\<close>.
\<close>

definition run_catch :: "js_builtins \<Rightarrow> inputs \<Rightarrow> exec_error \<Rightarrow> js_error option \<times> result list" where
  "run_catch js inp err =
     (let stdOut = (case e_stdout err of None \<Rightarrow> [] | Some t \<Rightarrow> trim t)
      in case marker_counts stdOut of
           None \<Rightarrow> (Some TypeError, [])
         | Some (testCount, errorCount) \<Rightarrow>
       (let sc = fail_score inp testCount errorCount;
            md1 = fail_summary js inp testCount errorCount sc;
            failures = tl (js_split re_header stdOut)
        in case collect failure_rows failures of
             Inl e \<Rightarrow> (Some e, [])
           | Inr rows \<Rightarrow>
        (let htmlTable = html_head @ concat (map render_row (map snd (concat rows))) @ ''</tbody></table>'';
             md2 = (case e_stderr err of
                      None \<Rightarrow> []
                    | Some t \<Rightarrow> if 0 < length t
                                then ''\<newline>\<newline>Error Output:\<newline>\<newline>'' @ fence (trim t)
                                else [])
         in (None,
             [\<lparr> version = 1, status = ''error'', max_score = maxScore inp,
                markdown = md1 @ htmlTable @ md2,
                tests = [\<lparr> t_name = or_else (testName inp) ''Unknown Test'',
                           t_status = ''error'',
                           t_message = ''Error running tests, see ''
                             @ or_else (testName inp) ''Unknown Test''
                             @ '' above for more details'',
                           test_code = or_else (runCommand inp) ''Unknown Command'',
                           filename = [], line_no = 0, execution_time = 0,
                           score = Some sc \<rparr>] \<rparr>]))))"

definition run :: "js_builtins \<Rightarrow> inputs \<Rightarrow> exec_result \<Rightarrow> js_error option \<times> result list" where
  "run js inp rr =
     (case rr of
        Threw err \<Rightarrow> run_catch js inp err
      | Returned rs \<Rightarrow>
          (case js_exec re_summary rs of
             None \<Rightarrow> run_catch js inp \<lparr> e_stdout = None, e_stderr = None \<rparr>
           | Some mt \<Rightarrow>
               (let dots = dots_of mt;
                    md = check_mark @ '' '' @ show_nat (length dots) @ '' test''
                         @ (if 1 < length dots then ''s'' else []) @ '' passed''
                in (None,
                    [\<lparr> version = 1, status = ''pass'', max_score = maxScore inp, markdown = md,
                       tests = [\<lparr> t_name = or_else (testName inp) ''Unknown Test'',
                                  t_status = ''pass'',
                                  t_message = ''Tests passed'',
                                  test_code = or_else (runCommand inp) ''Unknown Command'',
                                  filename = [], line_no = 0, execution_time = 0,
                                  score = Some (maxScore inp) \<rparr>] \<rparr>]))))"

subsection \<open>The whole program\<close>

text \<open>
  \<open>sr\<close>, \<open>br\<close> and \<open>rr\<close> are what the setup command, the build command and the run command
  give when they are run.
\<close>

definition main :: "js_builtins \<Rightarrow> (string \<Rightarrow> string) \<Rightarrow> spawn_outcome \<Rightarrow> exec_result \<Rightarrow> exec_result
                    \<Rightarrow> js_error option \<times> result list" where
  "main js cfg sr br rr =
     (case getInputs js cfg of
        Inl e \<Rightarrow> (Some e, [])
      | Inr inp \<Rightarrow>
          (case run_setup inp sr of
             Inl e \<Rightarrow> (Some e, [])
           | Inr (False, out) \<Rightarrow> (None, out)
           | Inr (True, out) \<Rightarrow>
               (case build inp br of
                  (False, out2) \<Rightarrow> (None, out @ out2)
                | (True, out2) \<Rightarrow>
                    (case run js inp rr of (e, out3) \<Rightarrow> (e, out @ out2 @ out3)))))"

section \<open>What a regular expression accepts\<close>

text \<open>
  The matcher is compared with the meaning of the items: \<open>accepts ml k p s c n c'\<close> holds
  when the items \<open>k\<close> can match the first \<open>n\<close> characters of \<open>s\<close>, taking the captures
  from \<open>c\<close> to \<open>c'\<close>.
\<close>

lemma rsz_alt_less:
  "x \<in> set alts \<Longrightarrow> sum_list (map rsz x) < Suc (\<Sum>alt\<leftarrow>alts. Suc (sum_list (map rsz alt)))"
  by (induction alts) auto

function accepts :: "bool \<Rightarrow> rx list \<Rightarrow> char option \<Rightarrow> string \<Rightarrow> caps \<Rightarrow> nat \<Rightarrow> caps \<Rightarrow> bool" where
  "accepts ml [] p s c n c' = (n = 0 \<and> c' = c)"
| "accepts ml (A a # k) p s c n c' =
     (\<exists>x xs n'. s = x # xs \<and> am a x \<and> n = Suc n' \<and> accepts ml k (Some x) xs c n' c')"
| "accepts ml (Star a # k) p s c n c' =
     (\<exists>u r n'. s = u @ r \<and> (\<forall>x\<in>set u. am a x) \<and> n = length u + n'
        \<and> accepts ml k (prev_after p u (length u)) r c n' c')"
| "accepts ml (Lazy a # k) p s c n c' =
     (\<exists>u r n'. s = u @ r \<and> (\<forall>x\<in>set u. am a x) \<and> n = length u + n'
        \<and> accepts ml k (prev_after p u (length u)) r c n' c')"
| "accepts ml (Plus a # k) p s c n c' = accepts ml (A a # Star a # k) p s c n c'"
| "accepts ml (Opt a # k) p s c n c' =
     (accepts ml k p s c n c'
      \<or> (\<exists>x xs n'. s = x # xs \<and> am a x \<and> n = Suc n' \<and> accepts ml k (Some x) xs c n' c'))"
| "accepts ml (Bol # k) p s c n c' =
     ((case p of None \<Rightarrow> True | Some y \<Rightarrow> ml \<and> is_lt y) \<and> accepts ml k p s c n c')"
| "accepts ml (Eol # k) p s c n c' =
     ((case s of [] \<Rightarrow> True | x # xs \<Rightarrow> ml \<and> is_lt x) \<and> accepts ml k p s c n c')"
| "accepts ml (Grp g alts # k) p s c n c' =
     (\<exists>alt\<in>set alts. accepts ml (alt @ Close g s # k) p s c n c')"
| "accepts ml (Close g s0 # k) p s c n c' =
     accepts ml k p s (c[g := Some (take (length s0 - length s) s0)]) n c'"
  by pat_completeness auto
termination
  by (relation "measure (\<lambda>(ml, k, p, s, c, n, c'). sum_list (map rsz k))") (auto simp: rsz_alt_less)

section \<open>Example runs\<close>

definition ex_js :: js_builtins where
  "ex_js = \<lparr> parseFloat = (\<lambda>t. if t = ''10'' then Num 10 else NaN),
             numToString = (\<lambda>x. if x = Num 10 then ''10'' else ''?'') \<rparr>"

definition ex_cfg :: "string \<Rightarrow> string" where
  "ex_cfg n =
     (if n = ''test-name'' then ''Calculator''
      else if n = ''test-class'' then ''CalcTest, ListTest''
      else if n = ''max-score'' then ''10''
      else if n = ''partial-credit'' then ''true''
      else [])"

definition ex_inputs :: inputs where
  "ex_inputs =
     \<lparr> testName = ''Calculator'', testClasses = [''CalcTest''], setupCommand = [],
       timeout = Num 300000, maxScore = Num 10, libFolder = ''lib'', partialCredit = True,
       buildCommand = ''javac -cp '' @ dq @ ''lib/*'' @ dq @ '' -d . *.java'',
       runCommand = ''java -cp '' @ dq @ ''lib/*:.'' @ dq @ '' org.junit.runner.JUnitCore CalcTest'' \<rparr>"

text \<open>A run of three tests of which two fail, each with a comparison.\<close>

definition ex_failed_tail :: string where
  "ex_failed_tail = ''Time: 0.012\<newline>There were 2 failures:\<newline>1) testAdd(CalcTest)\<newline>org.junit.ComparisonFailure: sum expected:<[3]> but was:<[4]>\<newline>	at CalcTest.testAdd(CalcTest.java:9)\<newline>2) testSub(CalcTest)\<newline>java.lang.AssertionError: expected:<1> but was:<2>\<newline>	at CalcTest.testSub(CalcTest.java:14)\<newline>\<newline>FAILURES!!!\<newline>Tests run: 3,  Failures: 2''"

definition ex_failed :: string where
  "ex_failed = ''JUnit version 4.13.2\<newline>..E.E\<newline>'' @ ex_failed_tail @ ''\<newline>''"

text \<open>A run that finds no test and exits with status zero.\<close>

definition ex_no_tests :: string where
  "ex_no_tests = ''JUnit version 4.13.2\<newline>\<newline>Time: 0.001\<newline>\<newline>OK (0 tests)\<newline>\<newline>''"

section \<open>The texts the expressions of the classifier match\<close>

text \<open>
  \<open>half kw g\<close> is one half of the expression for \<open>expected:<...> but was:<...>\<close>: the
  key word, a colon and an opening bracket with optional white space, the captured text and
  the closing bracket. \<open>half_shape kw s e r\<close> says that \<open>s\<close> is such a text with the
  captured text \<open>e\<close>, followed by \<open>r\<close>.
\<close>

definition half :: "string \<Rightarrow> nat \<Rightarrow> rx list" where
  "half kw g = lit kw @ [Star WS, A (C CHR '':''), Star WS, A (C CHR ''<''), Grp g [[Star Any]], A (C CHR ''>'')]"

definition half_shape :: "string \<Rightarrow> string \<Rightarrow> string \<Rightarrow> string \<Rightarrow> bool" where
  "half_shape kw s e r =
     (\<exists>w1 w2. s = kw @ w1 @ '':'' @ w2 @ ''<'' @ e @ ''>'' @ r
        \<and> (\<forall>x\<in>set (w1 @ w2). is_ws x) \<and> (\<forall>x\<in>set e. \<not> is_lt x))"

definition expected_shape :: "string \<Rightarrow> string \<Rightarrow> string \<Rightarrow> string \<Rightarrow> bool" where
  "expected_shape s e a r =
     (\<exists>r1 w3 r2. half_shape ''expected'' s e r1 \<and> r1 = w3 @ r2 \<and> (\<forall>x\<in>set w3. is_ws x)
        \<and> half_shape ''but was'' r2 a r)"

definition assert_shape :: "string \<Rightarrow> string \<Rightarrow> string \<Rightarrow> string \<Rightarrow> string \<Rightarrow> string \<Rightarrow> bool" where
  "assert_shape s kind msg e a post =
     ((kind = ''AssertionError'' \<or> kind = ''ComparisonFailure'')
      \<and> (\<forall>x\<in>set msg. \<not> is_lt x)
      \<and> (\<exists>rest. s = kind @ '':'' @ msg @ rest \<and> expected_shape rest e a post))"

text \<open>
  A block holds a structured comparison of kind \<open>kind\<close> with message text \<open>msg\<close>, expected
  text \<open>e\<close> and actual text \<open>a\<close>: it reads
  \<open>kind:msg expected:<e> but was:<a>\<close> somewhere, with optional white space around the
  two colons and before \<open>but was\<close>, and the three texts hold no line terminator.
\<close>

definition structured_text :: "string \<Rightarrow> string \<Rightarrow> string \<Rightarrow> string \<Rightarrow> string \<Rightarrow> bool" where
  "structured_text block kind msg e a =
     (\<exists>pre w1 w2 w3 w4 w5 post.
        block = pre @ kind @ '':'' @ msg @ ''expected'' @ w1 @ '':'' @ w2 @ ''<'' @ e @ ''>''
                @ w3 @ ''but was'' @ w4 @ '':'' @ w5 @ ''<'' @ a @ ''>'' @ post
        \<and> (kind = ''AssertionError'' \<or> kind = ''ComparisonFailure'')
        \<and> (\<forall>x\<in>set (w1 @ w2 @ w3 @ w4 @ w5). is_ws x)
        \<and> (\<forall>x\<in>set (msg @ e @ a). \<not> is_lt x))"

text \<open>The text the summary expression is applied to: the output as it is after a run with
  exit status zero, the trimmed output of the error otherwise.\<close>

definition run_text :: "exec_result \<Rightarrow> string" where
  "run_text rr =
     (case rr of
        Returned rs \<Rightarrow> rs
      | Threw err \<Rightarrow> (case e_stdout err of None \<Rightarrow> [] | Some t \<Rightarrow> trim t))"

definition shape :: "result \<Rightarrow> bool" where
  "shape r = (version r = 1 \<and> length (tests r) = 1)"


text \<open>The numbers of periods and of failure glyphs on a marker line.\<close>

definition periods :: "string \<Rightarrow> nat" where
  "periods dots = length (filter (\<lambda>x. x = CHR ''.'') dots)"

definition failures :: "string \<Rightarrow> nat" where
  "failures dots = length (filter (\<lambda>x. x = CHR ''E'' \<or> x = CHR ''e'') dots)"


















section \<open>The matcher and what the items accept\<close>

lemma prev_after_Cons [simp]: "prev_after p (x # u) (Suc (length u)) = prev_after (Some x) u (length u)"
  by (cases u rule: rev_cases) (auto simp: prev_after_def)

lemma prev_after_0 [simp]: "prev_after p u 0 = p"
  by (simp add: prev_after_def)

lemma accepts_Star0: "accepts ml k p s c n c' \<Longrightarrow> accepts ml (Star a # k) p s c n c'"
  by (simp, rule exI[of _ "[]"], simp)

lemma accepts_Star1:
  "am a x \<Longrightarrow> accepts ml (Star a # k) (Some x) xs c n c' \<Longrightarrow> accepts ml (Star a # k) p (x # xs) c (Suc n) c'"
  apply simp
  apply (elim exE conjE)
  subgoal for u r n'
    by (rule exI[of _ "x # u"]) auto
  done

lemma accepts_Lazy_Star: "accepts ml (Lazy a # k) p s c n c' = accepts ml (Star a # k) p s c n c'"
  by simp


declare accepts.simps(3,4) [simp del]

lemma m_sound: "m ml k p i s c = Some (j, c') \<Longrightarrow> \<exists>n. j = i + n \<and> accepts ml k p s c n c'"
proof (induction ml k p i s c arbitrary: j c' rule: m.induct)
  case (4 ml a k p i c)
  then show ?case by (auto intro: accepts_Star0)
next
  case (5 ml a k p i x xs c)
  show ?case
  proof (cases "am a x")
    case True
    show ?thesis
    proof (cases "m ml (Star a # k) (Some x) (Suc i) xs c")
      case None
      with True 5 show ?thesis by (auto intro: accepts_Star0)
    next
      case (Some r)
      with True 5 obtain n where n: "j = Suc i + n" "accepts ml (Star a # k) (Some x) xs c n c'" by auto
      with True show ?thesis
        by (intro exI[of _ "Suc n"]) (auto intro: accepts_Star1)
    qed
  next
    case False
    with 5 show ?thesis by (auto intro: accepts_Star0)
  qed
next
  case (6 ml a k p i c)
  then show ?case by (auto simp: accepts_Lazy_Star intro: accepts_Star0)
next
  case (7 ml a k p i x xs c)
  show ?case
  proof (cases "m ml k p i (x # xs) c")
    case (Some r)
    with 7 show ?thesis by (auto simp: accepts_Lazy_Star intro: accepts_Star0)
  next
    case None
    with 7 have ax: "am a x" and mm: "m ml (Lazy a # k) (Some x) (Suc i) xs c = Some (j, c')"
      by (auto split: if_splits)
    with None 7 obtain n where n: "j = Suc i + n" "accepts ml (Lazy a # k) (Some x) xs c n c'" by auto
    with ax show ?thesis
      by (intro exI[of _ "Suc n"]) (auto simp: accepts_Lazy_Star intro: accepts_Star1)
  qed
next
  case (16 ml n alt alts k p i s c)
  then show ?case
    by (auto split: option.splits)
qed (auto split: if_splits option.splits)



declare accepts.simps [simp del]

subsection \<open>The matcher on inputs of a known form\<close>

lemma m_lit: "m ml (lit l @ k) p i (l @ s) c = m ml k (prev_after p l (length l)) (i + length l) s c"
proof (induction l arbitrary: p i)
  case Nil
  then show ?case by (simp add: lit_def)
next
  case (Cons x l)
  have "m ml (lit (x # l) @ k) p i ((x # l) @ s) c = m ml (lit l @ k) (Some x) (Suc i) (l @ s) c"
    by (simp add: lit_def)
  then show ?case using Cons[of "Some x" "Suc i"] by simp
qed

lemma m_Star_greedy:
  assumes "\<forall>x\<in>set u. am a x"
    and "case s of [] \<Rightarrow> True | y # ys \<Rightarrow> \<not> am a y"
    and "m ml k (prev_after p u (length u)) (i + length u) s c = Some r"
  shows "m ml (Star a # k) p i (u @ s) c = Some r"
  using assms
proof (induction u arbitrary: p i)
  case Nil
  then show ?case by (cases s) auto
next
  case (Cons x u)
  have "m ml (Star a # k) (Some x) (Suc i) (u @ s) c = Some r"
    using Cons.prems by (intro Cons.IH) auto
  with Cons.prems show ?case by simp
qed

lemma m_Plus_greedy:
  assumes "u \<noteq> []" "\<forall>x\<in>set u. am a x"
    and "case s of [] \<Rightarrow> True | y # ys \<Rightarrow> \<not> am a y"
    and "m ml k (prev_after p u (length u)) (i + length u) s c = Some r"
  shows "m ml (Plus a # k) p i (u @ s) c = Some r"
proof -
  obtain x u' where u: "u = x # u'" using assms(1) by (cases u) auto
  have "m ml (Star a # k) (Some x) (Suc i) (u' @ s) c = Some r"
    using assms u by (intro m_Star_greedy) auto
  with assms u show ?thesis by simp
qed

text \<open>The tail of the summary expression on a marker line that ends with a line feed.\<close>

lemma m_marker_line:
  assumes "\<forall>x\<in>set u. \<not> is_lt x"
  shows "m False (Lazy Any # Close 2 s0 # [Grp 3 [[Opt (C CHR 0x0D), A (C CHR 0x0A)], [Eol]]])
           p i (u @ CHR 0x0A # rest) c
         = Some (Suc (i + length u),
                 c[2 := Some (take (length s0 - Suc (length rest)) s0),
                   3 := Some (take 1 (CHR 0x0A # rest))])"
  using assms
proof (induction u arbitrary: p i)
  case Nil
  then show ?case by simp
next
  case (Cons x u)
  then have "x \<noteq> CHR 0x0A" "x \<noteq> CHR 0x0D" by (auto simp: is_lt_def)
  with Cons show ?case by (simp add: is_lt_def)
qed


lemma digit_not_ws: "is_digit x \<Longrightarrow> \<not> is_ws x"
  by (auto simp: is_digit_def is_ws_def Let_def)

lemma m_summary:
  assumes ws: "\<forall>x\<in>set ws. is_ws x"
    and d1: "d1 \<noteq> []" "\<forall>x\<in>set d1. is_digit x"
    and d2: "d2 \<noteq> []" "\<forall>x\<in>set d2. is_digit x"
    and d3: "d3 \<noteq> []" "\<forall>x\<in>set d3. is_digit x"
    and dots: "\<forall>x\<in>set dots. \<not> is_lt x"
    and len: "length c = 4"
  shows "\<exists>j c'. m False (items re_summary) p 0
            (''version'' @ ws @ d1 @ ''.'' @ d2 @ ''.'' @ d3 @ [CHR 0x0A] @ dots @ CHR 0x0A # rest) c
          = Some (j, c') \<and> length c' = 4 \<and> c' ! 2 = Some dots"
proof -
  define K3 where "K3 = [Grp 3 [[Opt (C CHR 0x0D), A (C CHR 0x0A)], [Eol]]]"
  define s2 where "s2 = dots @ CHR 0x0A # rest"
  define K2 where "K2 = Opt (C CHR 0x0D) # A (C CHR 0x0A) # Grp 2 [[Lazy Any]] # K3"
  have h1: "\<And>p i c. m False (Lazy Any # Close 2 s2 # K3) p i s2 c
      = Some (Suc (i + length dots), c[2 := Some dots, 3 := Some [CHR 0x0A]])"
    using dots by (simp add: K3_def s2_def m_marker_line)
  have h2: "\<And>p i c. m False K2 p i (CHR 0x0A # s2) c
      = Some (Suc (Suc i + length dots), c[2 := Some dots, 3 := Some [CHR 0x0A]])"
    by (simp add: K2_def h1)
  define s1 where "s1 = CHR ''.'' # d3 @ CHR 0x0A # s2"
  have h3: "\<And>p i c. \<exists>r. m False (Grp 1 [[A (C CHR ''.''), Plus D]] # K2) p i s1 c
      = Some (r, c[1 := Some (CHR ''.'' # d3), 2 := Some dots, 3 := Some [CHR 0x0A]])"
  proof -
    fix p i c
    have "m False (Plus D # Close 1 s1 # K2) (Some CHR ''.'') (Suc i) (d3 @ CHR 0x0A # s2) c
        = Some (Suc (Suc (Suc i) + length d3 + length dots),
                c[1 := Some (CHR ''.'' # d3), 2 := Some dots, 3 := Some [CHR 0x0A]])"
      using d3 by (intro m_Plus_greedy) (auto simp: h2 s1_def is_digit_def)
    then show "\<exists>r. m False (Grp 1 [[A (C CHR ''.''), Plus D]] # K2) p i s1 c
        = Some (r, c[1 := Some (CHR ''.'' # d3), 2 := Some dots, 3 := Some [CHR 0x0A]])"
      by (simp add: s1_def)
  qed
  define K1 where "K1 = Grp 1 [[A (C CHR ''.''), Plus D]] # K2"
  define cf where "cf = c[1 := Some (CHR ''.'' # d3), 2 := Some dots, 3 := Some [CHR 0x0A]]"
  have h4: "\<And>p i. \<exists>r. m False (Plus D # K1) p i (d2 @ s1) c = Some (r, cf)"
  proof -
    fix p i
    obtain r where "m False K1 (prev_after p d2 (length d2)) (i + length d2) s1 c = Some (r, cf)"
      using h3 unfolding K1_def cf_def by blast
    then have "m False (Plus D # K1) p i (d2 @ s1) c = Some (r, cf)"
      using d2 by (intro m_Plus_greedy) (auto simp: s1_def is_digit_def)
    then show "\<exists>r. m False (Plus D # K1) p i (d2 @ s1) c = Some (r, cf)" by blast
  qed
  have h5: "\<And>p i. \<exists>r. m False (Plus D # A (C CHR ''.'') # Plus D # K1) p i (d1 @ CHR ''.'' # d2 @ s1) c = Some (r, cf)"
  proof -
    fix p i
    obtain r where "m False (A (C CHR ''.'') # Plus D # K1) (prev_after p d1 (length d1)) (i + length d1)
        (CHR ''.'' # d2 @ s1) c = Some (r, cf)"
      using h4 by (simp) blast
    then have "m False (Plus D # A (C CHR ''.'') # Plus D # K1) p i (d1 @ CHR ''.'' # d2 @ s1) c = Some (r, cf)"
      using d1 by (intro m_Plus_greedy) (auto simp: is_digit_def)
    then show "\<exists>r. m False (Plus D # A (C CHR ''.'') # Plus D # K1) p i (d1 @ CHR ''.'' # d2 @ s1) c = Some (r, cf)"
      by blast
  qed
  have h6: "\<And>p i. \<exists>r. m False (Star WS # Plus D # A (C CHR ''.'') # Plus D # K1) p i
      (ws @ d1 @ CHR ''.'' # d2 @ s1) c = Some (r, cf)"
  proof -
    fix p i
    obtain r where "m False (Plus D # A (C CHR ''.'') # Plus D # K1) (prev_after p ws (length ws)) (i + length ws)
        (d1 @ CHR ''.'' # d2 @ s1) c = Some (r, cf)"
      using h5 by blast
    moreover obtain y ys where "d1 = y # ys" using d1(1) by (cases d1) auto
    ultimately have "m False (Star WS # Plus D # A (C CHR ''.'') # Plus D # K1) p i
        (ws @ d1 @ CHR ''.'' # d2 @ s1) c = Some (r, cf)"
      using ws d1(2) by (intro m_Star_greedy) (auto simp: digit_not_ws)
    then show "\<exists>r. m False (Star WS # Plus D # A (C CHR ''.'') # Plus D # K1) p i
        (ws @ d1 @ CHR ''.'' # d2 @ s1) c = Some (r, cf)"
      by blast
  qed
  have it: "items re_summary = lit ''version'' @ (Star WS # Plus D # A (C CHR ''.'') # Plus D # K1)"
    by (simp add: re_summary_def K1_def K2_def K3_def)
  obtain r where "m False (Star WS # Plus D # A (C CHR ''.'') # Plus D # K1)
      (prev_after p ''version'' (length ''version'')) (0 + length ''version'')
      (ws @ d1 @ CHR ''.'' # d2 @ s1) c = Some (r, cf)"
    using h6 by blast
  then have "m False (items re_summary) p 0 (''version'' @ (ws @ d1 @ CHR ''.'' # d2 @ s1)) c = Some (r, cf)"
    unfolding it by (simp only: m_lit)
  moreover have "''version'' @ ws @ d1 @ ''.'' @ d2 @ ''.'' @ d3 @ [CHR 0x0A] @ dots @ CHR 0x0A # rest
      = ''version'' @ (ws @ d1 @ CHR ''.'' # d2 @ s1)"
    by (simp add: s1_def s2_def)
  moreover have "length cf = 4" "cf ! 2 = Some dots" using len by (simp_all add: cf_def)
  ultimately show ?thesis by (simp only:) blast
qed


lemma search_skip:
  assumes "\<forall>x\<in>set pre. \<not> am a x"
  shows "search ml (A a # k) c0 p (pre @ s)
    = (case search ml (A a # k) c0 (prev_after p pre (length pre)) s of
         None \<Rightarrow> None | Some (d, j, c) \<Rightarrow> Some (length pre + d, j, c))"
  using assms
proof (induction pre arbitrary: p)
  case Nil
  then show ?case by (simp split: option.splits)
next
  case (Cons x pre)
  then show ?case by (simp split: option.splits)
qed

lemma search_here:
  "m ml re p 0 s c0 = Some (j, c) \<Longrightarrow> search ml re c0 p s = Some (0, j, c)"
  by (cases s) simp_all

lemma search_atom:
  "search ml [A a] c0 p s
     = (if \<exists>x\<in>set s. am a x then Some (length (takeWhile (\<lambda>x. \<not> am a x) s), 1, c0) else None)"
  by (induction s arbitrary: p) auto

lemma filter_first:
  assumes "\<exists>x\<in>set s. P x"
  shows "\<exists>y. drop (length (takeWhile (\<lambda>x. \<not> P x) s)) s = y # drop (Suc (length (takeWhile (\<lambda>x. \<not> P x) s))) s
           \<and> P y \<and> filter P s = y # filter P (drop (Suc (length (takeWhile (\<lambda>x. \<not> P x) s))) s)"
  using assms
proof (induction s)
  case Nil
  then show ?case by simp
next
  case (Cons x s)
  then show ?case by (cases "P x") auto
qed

lemma js_scan_atom:
  assumes "items re = [A a]"
  shows "map snd (fst (js_scan re p s)) = map (\<lambda>x. (no_caps re)[0 := Some [x]]) (filter (am a) s)"
  using assms
proof (induction re p s rule: js_scan.induct)
  case (1 re p)
  then show ?case by (simp add: search_atom)
next
  case (2 re p x xs)
  show ?case
  proof (cases "\<exists>y\<in>set (x # xs). am a y")
    case False
    then have "filter (am a) (x # xs) = []" by (auto simp: filter_empty_conv)
    with False 2(3) show ?thesis by (simp add: search_atom)
  next
    case True
    define d where "d = length (takeWhile (\<lambda>y. \<not> am a y) (x # xs))"
    have se: "search (multiline re) (items re) (no_caps re) p (x # xs) = Some (d, 1, no_caps re)"
      using True 2(3) unfolding d_def by (simp only: search_atom if_True)
    from filter_first[OF True] obtain y where y:
      "drop d (x # xs) = y # drop (Suc d) (x # xs)" "am a y"
      "filter (am a) (x # xs) = y # filter (am a) (drop (Suc d) (x # xs))"
      unfolding d_def by blast
    have ih: "map snd (fst (js_scan re (prev_after p (x # xs) (d + 1)) (drop (d + 1 - 1) xs)))
        = map (\<lambda>x. (no_caps re)[0 := Some [x]]) (filter (am a) (drop (d + 1 - 1) xs))"
      using 2(2)[OF se refl refl refl refl _ 2(3)] by simp
    show ?thesis
      using se y ih by (auto simp add: Let_def simp del: search.simps split: prod.splits)
  qed
qed


lemma of_char_e: "(of_char x = (101::nat)) = (x = CHR ''e'')"
proof -
  have "(of_char x = (of_char CHR ''e'' :: nat)) = (x = CHR ''e'')" by (rule of_char_eq_iff)
  then show ?thesis by simp
qed

lemma canon_E: "am (CI CHR ''E'') x = (x = CHR ''E'' \<or> x = CHR ''e'')"
proof -
  have cE: "canon CHR ''E'' = CHR ''E''" by (simp add: canon_def)
  show ?thesis
  proof (cases "97 \<le> (of_char x :: nat) \<and> (of_char x :: nat) \<le> 122")
    case True
    then have ne: "x \<noteq> CHR ''E''" by auto
    have "(of_char x :: nat) < 256" by simp
    then have lt: "(of_char x :: nat) - 32 < 256" by arith
    have "(char_of ((of_char x :: nat) - 32) = CHR ''E'') = ((of_char x :: nat) - 32 = 69)"
      using lt by (simp add: char_of_eq_iff take_bit_eq_mod)
    also have "\<dots> = ((of_char x :: nat) = 101)" using True by auto
    finally show ?thesis using True ne by (simp add: canon_def cE of_char_e)
  next
    case False
    then have "x \<noteq> CHR ''e''" by auto
    with False show ?thesis by (auto simp: canon_def cE Let_def)
  qed
qed

lemma js_match_g_atom:
  assumes "items re = [A a]" "groups re = 0"
  shows "js_match_g re s = (if filter (am a) s = [] then None else Some (map (\<lambda>x. [x]) (filter (am a) s)))"
proof -
  have "js_match_all re s = map (\<lambda>x. [Some [x]]) (filter (am a) s)"
    using js_scan_atom[OF assms(1), of None s] assms(2) by (simp add: js_match_all_def no_caps_def)
  then show ?thesis
    by (cases "filter (am a) s") (simp_all add: js_match_g_def grp_def comp_def)
qed

lemma js_exec_summary:
  assumes "out = pre @ ''version'' @ ws @ d1 @ ''.'' @ d2 @ ''.'' @ d3 @ [CHR 0x0A] @ dots @ CHR 0x0A # rest"
    and "CHR ''v'' \<notin> set pre"
    and "\<forall>x\<in>set ws. is_ws x"
    and "d1 \<noteq> []" "\<forall>x\<in>set d1. is_digit x"
    and "d2 \<noteq> []" "\<forall>x\<in>set d2. is_digit x"
    and "d3 \<noteq> []" "\<forall>x\<in>set d3. is_digit x"
    and "\<forall>x\<in>set dots. \<not> is_lt x"
  shows "\<exists>mt. js_exec re_summary out = Some mt \<and> dots_of mt = dots"
proof -
  have len: "length (no_caps re_summary) = 4" by (simp add: no_caps_def re_summary_def)
  have it: "items re_summary = A (C CHR ''v'') # tl (items re_summary)"
    by (simp add: re_summary_def lit_def)
  have ml: "multiline re_summary = False" by (simp add: re_summary_def)
  define s where "s = ''version'' @ ws @ d1 @ ''.'' @ d2 @ ''.'' @ d3 @ [CHR 0x0A] @ dots @ CHR 0x0A # rest"
  obtain j c' where m: "m False (items re_summary) (prev_after None pre (length pre)) 0 s (no_caps re_summary) = Some (j, c')"
    "length c' = 4" "c' ! 2 = Some dots"
    using m_summary[OF assms(3-10) len] unfolding s_def by blast
  have "search False (items re_summary) (no_caps re_summary) (prev_after None pre (length pre)) s = Some (0, j, c')"
    using m(1) by (rule search_here)
  moreover have "search False (items re_summary) (no_caps re_summary) None (pre @ s)
    = (case search False (items re_summary) (no_caps re_summary) (prev_after None pre (length pre)) s of
         None \<Rightarrow> None | Some (d, j, c) \<Rightarrow> Some (length pre + d, j, c))"
    using assms(2) by (subst it, subst (2) it, intro search_skip) auto
  ultimately have "search False (items re_summary) (no_caps re_summary) None out = Some (length pre, j, c')"
    using assms(1) by (simp add: s_def)
  then have "js_exec re_summary out = Some (c'[0 := Some (take j (drop (length pre) out))])"
    by (simp add: js_exec_def ml)
  moreover have "dots_of (c'[0 := Some (take j (drop (length pre) out))]) = dots"
    using m(2,3) by (simp add: dots_of_def grp_def)
  ultimately show ?thesis by blast
qed

subsection \<open>Searching and scanning\<close>

lemma m_le: "m ml k p i s c = Some (j, c') \<Longrightarrow> j \<le> i + length s"
  by (induction ml k p i s c arbitrary: j c' rule: m.induct)
     (fastforce split: if_splits option.splits)+

lemma search_Some:
  "search ml re c0 p s = Some (d, j, c) \<Longrightarrow>
     d \<le> length s \<and> (\<exists>p'. m ml re p' 0 (drop d s) c0 = Some (j, c))"
proof (induction s arbitrary: p d)
  case Nil
  then show ?case by (auto split: option.splits)
next
  case (Cons x xs)
  show ?case
  proof (cases "m ml re p 0 (x # xs) c0")
    case (Some r)
    with Cons.prems show ?thesis by (cases r) auto
  next
    case None
    with Cons.prems obtain d' where d': "d = Suc d'" "search ml re c0 (Some x) xs = Some (d', j, c)"
      by (auto split: option.splits)
    from Cons.IH[OF d'(2)] d'(1) show ?thesis by simp
  qed
qed


lemma snd_push_front [simp]: "map snd (fst (push_front y r)) = map snd (fst r)"
proof (cases r)
  case (Pair ms rest)
  then show ?thesis by (cases ms) auto
qed

lemma js_scan_sound:
  "mt \<in> set (map snd (fst (js_scan re p s))) \<Longrightarrow>
     \<exists>d j c p'. d \<le> length s
       \<and> m (multiline re) (items re) p' 0 (drop d s) (no_caps re) = Some (j, c)
       \<and> mt = c[0 := Some (take j (drop d s))]"
proof (induction re p s rule: js_scan.induct)
  case (1 re p)
  then obtain d j c where se: "search (multiline re) (items re) (no_caps re) p [] = Some (d, j, c)"
    and mt: "mt = c[0 := Some []]"
    by (auto split: option.splits)
  from search_Some[OF se] show ?case using mt by auto
next
  case (2 re p x xs)
  from 2(3) obtain d j c where se: "search (multiline re) (items re) (no_caps re) p (x # xs) = Some (d, j, c)"
    by (cases "search (multiline re) (items re) (no_caps re) p (x # xs)") (auto simp del: search.simps)
  from search_Some[OF se] obtain p' where d: "d \<le> length (x # xs)"
    and m: "m (multiline re) (items re) p' 0 (drop d (x # xs)) (no_caps re) = Some (j, c)" by blast
  define c' where "c' = c[0 := Some (take j (drop d (x # xs)))]"
  show ?case
  proof (cases "mt = c'")
    case True
    with d m show ?thesis unfolding c'_def by blast
  next
    case False
    show ?thesis
    proof (cases "j = 0")
      case True
      show ?thesis
      proof (cases "drop d (x # xs)")
        case Nil
        with 2(3) se True False show ?thesis
          by (auto simp: c'_def Let_def simp del: search.simps)
      next
        case (Cons y ys)
        with 2(3) se True False have "mt \<in> set (map snd (fst (js_scan re (Some y) (drop d xs))))"
          by (auto simp: c'_def Let_def simp del: search.simps split: prod.splits)
            (metis fst_conv snd_push_front list.set_map image_eqI snd_conv)
        from 2(1)[OF se refl refl refl refl True Cons this] obtain d2 j2 c2 p2 where
          "d2 \<le> length (drop d xs)"
          "m (multiline re) (items re) p2 0 (drop d2 (drop d xs)) (no_caps re) = Some (j2, c2)"
          "mt = c2[0 := Some (take j2 (drop d2 (drop d xs)))]" by blast
        moreover have "d \<le> length xs" using d Cons by (cases "d \<le> length xs") auto
        ultimately show ?thesis
          apply -
          apply (rule exI[of _ "Suc (d2 + d)"], rule exI[of _ j2], rule exI[of _ c2], rule exI[of _ p2])
          apply (auto simp: add.commute)
          done
      qed
    next
      case jpos: False
      with 2(3) se False have "mt \<in> set (map snd (fst (js_scan re (prev_after p (x # xs) (d + j)) (drop (d + j - 1) xs))))"
        by (auto simp: c'_def Let_def simp del: search.simps split: prod.splits)
      from 2(2)[OF se refl refl refl refl jpos this] obtain d2 j2 c2 p2 where
        "d2 \<le> length (drop (d + j - 1) xs)"
        "m (multiline re) (items re) p2 0 (drop d2 (drop (d + j - 1) xs)) (no_caps re) = Some (j2, c2)"
        "mt = c2[0 := Some (take j2 (drop d2 (drop (d + j - 1) xs)))]" by blast
      moreover have "d + j \<le> Suc (length xs)" using m_le[OF m] d by simp
      ultimately show ?thesis
        using jpos
        apply -
        apply (rule exI[of _ "Suc (d2 + (d + j - 1))"], rule exI[of _ j2], rule exI[of _ c2], rule exI[of _ p2])
        apply (auto simp: add.commute drop_Cons')
        done
    qed
  qed
qed


subsection \<open>The texts the classifier's expressions accept\<close>

lemma accepts_lit:
  "accepts ml (lit l @ k) p s c n c'
     = (\<exists>r n'. s = l @ r \<and> n = length l + n' \<and> accepts ml k (prev_after p l (length l)) r c n' c')"
proof (induction l arbitrary: p s n)
  case Nil
  then show ?case by (simp add: lit_def)
next
  case (Cons x l)
  have "accepts ml (lit (x # l) @ k) p s c n c'
      = (\<exists>ys n'. s = x # ys \<and> n = Suc n' \<and> accepts ml (lit l @ k) (Some x) ys c n' c')"
    by (auto simp: lit_def accepts.simps(2))
  then show ?case by (auto simp: Cons)
qed

lemma accepts_Grp_Star1:
  "accepts ml (Grp g [[Star a]] # k) p s c n c'
     = (\<exists>u r n'. s = u @ r \<and> (\<forall>x\<in>set u. am a x) \<and> n = length u + n'
          \<and> accepts ml k (prev_after p u (length u)) r (c[g := Some u]) n' c')"
proof -
  have "accepts ml (Grp g [[Star a]] # k) p s c n c'
     = (\<exists>u r n'. s = u @ r \<and> (\<forall>x\<in>set u. am a x) \<and> n = length u + n'
          \<and> accepts ml k (prev_after p u (length u)) r (c[g := Some (take (length s - length r) s)]) n' c')"
    by (simp add: accepts.simps(3,9,10))
  also have "\<dots> = (\<exists>u r n'. s = u @ r \<and> (\<forall>x\<in>set u. am a x) \<and> n = length u + n'
          \<and> accepts ml k (prev_after p u (length u)) r (c[g := Some u]) n' c')"
    by (intro arg_cong[where f = Ex] ext) auto
  finally show ?thesis .
qed

lemma accepts_Grp_lits:
  "accepts ml (Grp g [lit l1, lit l2] # k) p s c n c'
     = (\<exists>l r n'. (l = l1 \<or> l = l2) \<and> s = l @ r \<and> n = length l + n'
          \<and> accepts ml k (prev_after p l (length l)) r (c[g := Some l]) n' c')"
proof -
  have "accepts ml (lit l @ Close g s # k) p s c n c'
      = (\<exists>r n'. s = l @ r \<and> n = length l + n' \<and> accepts ml k (prev_after p l (length l)) r (c[g := Some l]) n' c')" for l
    unfolding accepts_lit accepts.simps(10)
    by (intro arg_cong[where f = Ex] ext) auto
  then show ?thesis
    by (auto simp: accepts.simps(9))
qed

lemma accepts_litD:
  assumes "accepts ml (lit l @ K) p s c n c'"
  shows "\<exists>r n'. s = l @ r \<and> n = length l + n' \<and> accepts ml K (prev_after p l (length l)) r c n' c'"
  using assms unfolding accepts_lit by simp

lemma accepts_StarD:
  assumes "accepts ml (Star a # K) p s c n c'"
  shows "\<exists>u r n' p'. s = u @ r \<and> (\<forall>x\<in>set u. am a x) \<and> n = length u + n' \<and> accepts ml K p' r c n' c'"
  using assms unfolding accepts.simps(3) by blast

lemma accepts_AD:
  assumes "accepts ml (A (C y) # K) p s c n c'"
  shows "\<exists>r n'. s = y # r \<and> n = Suc n' \<and> accepts ml K (Some y) r c n' c'"
  using assms unfolding accepts.simps(2) am.simps by blast

lemma accepts_Grp_StarD:
  assumes "accepts ml (Grp g [[Star a]] # K) p s c n c'"
  shows "\<exists>u r n' p'. s = u @ r \<and> (\<forall>x\<in>set u. am a x) \<and> n = length u + n' \<and> accepts ml K p' r (c[g := Some u]) n' c'"
  using assms unfolding accepts_Grp_Star1 by blast





lemma accepts_half1:
  assumes "accepts ml (half kw g @ k) p s c n c'"
  shows "\<exists>e r n'. half_shape kw s e r \<and> n = length s - length r + n'
          \<and> accepts ml k (Some CHR ''>'') r (c[g := Some e]) n' c'"
proof -
  from assms have "accepts ml (lit kw @ Star WS # A (C CHR '':'') # Star WS # A (C CHR ''<'') # Grp g [[Star Any]]
      # A (C CHR ''>'') # k) p s c n c'"
    by (simp add: half_def)
  from accepts_litD[OF this] obtain r0 n0 where 0: "s = kw @ r0" "n = length kw + n0"
    and a0: "accepts ml (Star WS # A (C CHR '':'') # Star WS # A (C CHR ''<'') # Grp g [[Star Any]] # A (C CHR ''>'') # k)
               (prev_after p kw (length kw)) r0 c n0 c'"
    by blast
  from accepts_StarD[OF a0] obtain w1 r1 n1 p1 where 1: "r0 = w1 @ r1" "\<forall>x\<in>set w1. am WS x" "n0 = length w1 + n1"
    and a1: "accepts ml (A (C CHR '':'') # Star WS # A (C CHR ''<'') # Grp g [[Star Any]] # A (C CHR ''>'') # k) p1 r1 c n1 c'"
    by blast
  from accepts_AD[OF a1] obtain r2 n2 where 2: "r1 = CHR '':'' # r2" "n1 = Suc n2"
    and a2: "accepts ml (Star WS # A (C CHR ''<'') # Grp g [[Star Any]] # A (C CHR ''>'') # k) (Some CHR '':'') r2 c n2 c'"
    by blast
  from accepts_StarD[OF a2] obtain w2 r3 n3 p3 where 3: "r2 = w2 @ r3" "\<forall>x\<in>set w2. am WS x" "n2 = length w2 + n3"
    and a3: "accepts ml (A (C CHR ''<'') # Grp g [[Star Any]] # A (C CHR ''>'') # k) p3 r3 c n3 c'"
    by blast
  from accepts_AD[OF a3] obtain r4 n4 where 4: "r3 = CHR ''<'' # r4" "n3 = Suc n4"
    and a4: "accepts ml (Grp g [[Star Any]] # A (C CHR ''>'') # k) (Some CHR ''<'') r4 c n4 c'"
    by blast
  from accepts_Grp_StarD[OF a4] obtain e r5 n5 p5 where 5: "r4 = e @ r5" "\<forall>x\<in>set e. am Any x" "n4 = length e + n5"
    and a5: "accepts ml (A (C CHR ''>'') # k) p5 r5 (c[g := Some e]) n5 c'"
    by blast
  from accepts_AD[OF a5] obtain r n' where 6: "r5 = CHR ''>'' # r" "n5 = Suc n'"
    and a6: "accepts ml k (Some CHR ''>'') r (c[g := Some e]) n' c'"
    by blast
  have s: "s = kw @ w1 @ '':'' @ w2 @ ''<'' @ e @ ''>'' @ r"
    by (simp add: 0 1 2 3 4 5 6)
  have "half_shape kw s e r"
    unfolding half_shape_def
    apply (rule exI[of _ w1], rule exI[of _ w2])
    using s 1(2) 3(2) 5(2) apply auto
    done
  moreover have "n = length s - length r + n'" by (simp add: s 0 1 2 3 4 5 6)
  ultimately show ?thesis using a6 by blast
qed



lemma expected_items_half:
  "expected_items g1 g2 @ k = half ''expected'' g1 @ Star WS # half ''but was'' g2 @ k"
  by (simp add: expected_items_def half_def)

lemma half_shape_len: "half_shape kw s e r \<Longrightarrow> length r \<le> length s"
  by (auto simp: half_shape_def)

lemma expected_shape_len: "expected_shape s e a r \<Longrightarrow> length r \<le> length s"
proof -
  assume "expected_shape s e a r"
  then obtain r1 w3 r2 where "half_shape ''expected'' s e r1" "r1 = w3 @ r2" "half_shape ''but was'' r2 a r"
    unfolding expected_shape_def by blast
  then show ?thesis
    using half_shape_len[of "''expected''" s e r1] half_shape_len[of "''but was''" r2 a r] by simp
qed

lemma accepts_expected1:
  assumes "accepts ml (expected_items g1 g2 @ k) p s c n c'"
  shows "\<exists>e a r n'. expected_shape s e a r \<and> n = length s - length r + n'
          \<and> accepts ml k (Some CHR ''>'') r (c[g1 := Some e, g2 := Some a]) n' c'"
proof -
  from assms have "accepts ml (half ''expected'' g1 @ Star WS # half ''but was'' g2 @ k) p s c n c'"
    by (simp only: expected_items_half)
  from accepts_half1[OF this] obtain e r1 n1 where 1: "half_shape ''expected'' s e r1"
    "n = length s - length r1 + n1"
    and a1: "accepts ml (Star WS # half ''but was'' g2 @ k) (Some CHR ''>'') r1 (c[g1 := Some e]) n1 c'"
    by blast
  from accepts_StarD[OF a1] obtain w3 r2 n2 p2 where 2: "r1 = w3 @ r2" "\<forall>x\<in>set w3. am WS x" "n1 = length w3 + n2"
    and a2: "accepts ml (half ''but was'' g2 @ k) p2 r2 (c[g1 := Some e]) n2 c'"
    by blast
  from accepts_half1[OF a2] obtain a r n' where 3: "half_shape ''but was'' r2 a r"
    "n2 = length r2 - length r + n'"
    and a3: "accepts ml k (Some CHR ''>'') r (c[g1 := Some e, g2 := Some a]) n' c'"
    by blast
  have "expected_shape s e a r"
    unfolding expected_shape_def using 1(1) 2(1,2) 3(1) by auto
  moreover have "n = length s - length r + n'"
    using 1(2) 2(1,3) 3(2) half_shape_len[OF 1(1)] half_shape_len[OF 3(1)] by simp
  ultimately show ?thesis using a3 by blast
qed


lemma accepts_assert:
  assumes "accepts ml (items re_assert) p s c n c'"
  shows "\<exists>kind msg e a post. assert_shape s kind msg e a post
           \<and> c' = c[1 := Some kind, 2 := Some msg, 3 := Some e, 4 := Some a]
           \<and> n = length s - length post"
proof -
  have it: "items re_assert = Grp 1 [lit ''AssertionError'', lit ''ComparisonFailure''] # A (C CHR '':'')
      # Grp 2 [[Star Any]] # expected_items 3 4 @ []"
    by (simp add: re_assert_def)
  from assms obtain kind r0 n0 p0 where 0: "kind = ''AssertionError'' \<or> kind = ''ComparisonFailure''"
    "s = kind @ r0" "n = length kind + n0"
    and a0: "accepts ml (A (C CHR '':'') # Grp 2 [[Star Any]] # expected_items 3 4 @ []) p0 r0 (c[1 := Some kind]) n0 c'"
    unfolding it accepts_Grp_lits by blast
  from accepts_AD[OF a0] obtain r1 n1 where 1: "r0 = CHR '':'' # r1" "n0 = Suc n1"
    and a1: "accepts ml (Grp 2 [[Star Any]] # expected_items 3 4 @ []) (Some CHR '':'') r1 (c[1 := Some kind]) n1 c'"
    by blast
  from accepts_Grp_StarD[OF a1] obtain msg rest n2 p2 where 2: "r1 = msg @ rest" "\<forall>x\<in>set msg. am Any x"
    "n1 = length msg + n2"
    and a2: "accepts ml (expected_items 3 4 @ []) p2 rest (c[1 := Some kind, 2 := Some msg]) n2 c'"
    by blast
  from accepts_expected1[OF a2] obtain e a post n' where 3: "expected_shape rest e a post"
    "n2 = length rest - length post + n'"
    and a3: "accepts ml [] (Some CHR ''>'') post (c[1 := Some kind, 2 := Some msg, 3 := Some e, 4 := Some a]) n' c'"
    by blast
  from a3 have 4: "n' = 0" "c' = c[1 := Some kind, 2 := Some msg, 3 := Some e, 4 := Some a]"
    by (simp_all add: accepts.simps(1))
  have lp: "length post \<le> length rest"
    using 3(1) by (rule expected_shape_len)
  have "assert_shape s kind msg e a post"
    unfolding assert_shape_def using 0(1,2) 1(1) 2(1,2) 3(1) by auto
  moreover have "n = length s - length post"
    using 0(2,3) 1 2(1,3) 3(2) 4(1) lp by simp
  ultimately show ?thesis using 4(2) by blast
qed


lemma assert_shape_text:
  assumes "assert_shape s kind msg e a post"
  shows "structured_text (pre @ s) kind msg e a"
proof -
  from assms obtain rest where k: "kind = ''AssertionError'' \<or> kind = ''ComparisonFailure''"
    and m: "\<forall>x\<in>set msg. \<not> is_lt x" and s: "s = kind @ '':'' @ msg @ rest"
    and x: "expected_shape rest e a post"
    unfolding assert_shape_def by blast
  from x obtain r1 w3 r2 where h1: "half_shape ''expected'' rest e r1" and r1: "r1 = w3 @ r2"
    and w3: "\<forall>x\<in>set w3. is_ws x" and h2: "half_shape ''but was'' r2 a post"
    unfolding expected_shape_def by blast
  from h1 obtain w1 w2 where e: "rest = ''expected'' @ w1 @ '':'' @ w2 @ ''<'' @ e @ ''>'' @ r1"
    and w12: "\<forall>x\<in>set (w1 @ w2). is_ws x" and ne: "\<forall>x\<in>set e. \<not> is_lt x"
    unfolding half_shape_def by blast
  from h2 obtain w4 w5 where a: "r2 = ''but was'' @ w4 @ '':'' @ w5 @ ''<'' @ a @ ''>'' @ post"
    and w45: "\<forall>x\<in>set (w4 @ w5). is_ws x" and na: "\<forall>x\<in>set a. \<not> is_lt x"
    unfolding half_shape_def by blast
  show ?thesis
    unfolding structured_text_def
    apply (rule exI[of _ pre], rule exI[of _ w1], rule exI[of _ w2], rule exI[of _ w3],
        rule exI[of _ w4], rule exI[of _ w5], rule exI[of _ post])
    using k m s r1 w3 e w12 ne a w45 na
    apply auto
    done
qed



subsection \<open>The classifier never throws\<close>

lemma search_newline_none:
  assumes "\<forall>x\<in>set t. \<not> is_lt x"
  shows "search False (items re_newline) c0 p t = None"
  using assms
proof (induction t arbitrary: p)
  case Nil
  then show ?case by (simp add: re_newline_def)
next
  case (Cons x t)
  then have "x \<noteq> CHR 0x0D" "x \<noteq> CHR 0x0A" by (auto simp: is_lt_def)
  moreover have "search False (items re_newline) c0 (Some x) t = None" using Cons by simp
  ultimately show ?case by (simp add: re_newline_def)
qed

lemma nl2br_id:
  assumes "\<forall>x\<in>set t. \<not> is_lt x"
  shows "nl2br t = t"
proof -
  have "search (multiline re_newline) (items re_newline) (no_caps re_newline) None t = None"
    using search_newline_none[OF assms] by (simp add: re_newline_def)
  then have "js_scan re_newline None t = ([], t)"
    by (cases t) (simp_all del: search.simps)
  then show ?thesis by (simp add: nl2br_def js_replace_all_def)
qed

lemma set_trim: "set (trim t) \<subseteq> set t"
proof
  fix x assume "x \<in> set (trim t)"
  then have "x \<in> set (dropWhile is_ws (rev (dropWhile is_ws t)))" by (simp add: trim_def)
  then have "x \<in> set (rev (dropWhile is_ws t))" by (rule set_dropWhileD)
  then have "x \<in> set (dropWhile is_ws t)" by simp
  then show "x \<in> set t" by (rule set_dropWhileD)
qed

lemma collect_Inr:
  assumes "\<forall>x\<in>set xs. f x = Inr (g x)"
  shows "collect f xs = Inr (map g xs)"
  using assms by (induction xs) auto

lemma row_of_match_assert:
  assumes "mt \<in> set (js_match_all re_assert block)"
  shows "\<exists>kind msg e a. structured_text block kind msg e a
           \<and> row_of_match mt = Inr (Cells (if trim msg = [] then ''Test failed'' else trim msg) e a,
                                     Cells (if trim msg = [] then ''Test failed'' else trim msg) (trim e) (trim a))"
proof -
  from assms have "mt \<in> set (map snd (fst (js_scan re_assert None block)))"
    by (simp add: js_match_all_def)
  from js_scan_sound[OF this] obtain d j c p' where d: "d \<le> length block"
    and m: "m (multiline re_assert) (items re_assert) p' 0 (drop d block) (no_caps re_assert) = Some (j, c)"
    and mt: "mt = c[0 := Some (take j (drop d block))]"
    by blast
  from m_sound[OF m] obtain n where "accepts (multiline re_assert) (items re_assert) p' (drop d block) (no_caps re_assert) n c"
    by blast
  from accepts_assert[OF this] obtain kind msg e a post where sh: "assert_shape (drop d block) kind msg e a post"
    and c: "c = (no_caps re_assert)[1 := Some kind, 2 := Some msg, 3 := Some e, 4 := Some a]"
    by blast
  have "structured_text (take d block @ drop d block) kind msg e a"
    using sh by (rule assert_shape_text)
  then have st: "structured_text block kind msg e a" by simp
  then have nolt: "\<forall>x\<in>set e. \<not> is_lt x" "\<forall>x\<in>set a. \<not> is_lt x"
    unfolding structured_text_def by auto
  have g: "grp mt 2 = Some msg" "grp mt 3 = Some e" "grp mt 4 = Some a"
    unfolding mt c by (simp_all add: grp_def no_caps_def re_assert_def)
  have "nl2br (trim e) = trim e" "nl2br (trim a) = trim a"
    using nolt set_trim[of e] set_trim[of a] by (auto intro!: nl2br_id)
  then have "row_of_match mt = Inr (Cells (if trim msg = [] then ''Test failed'' else trim msg) e a,
                                     Cells (if trim msg = [] then ''Test failed'' else trim msg) (trim e) (trim a))"
    by (simp add: row_of_match_def defined_def g or_else_def Let_def)
  with st show ?thesis by blast
qed

lemma split_from_nonempty: "split_from sep acc s \<noteq> []"
  by (induction sep acc s rule: split_from.induct) auto

lemma split_str_line: "\<exists>l ls. split_str [CHR 0x0A] t = l # ls"
  using split_from_nonempty[of "[CHR 0x0A]" "[]" t]
  by (cases "split_from [CHR 0x0A] [] t") (auto simp: split_str_def)

lemma failure_rows_total: "\<exists>rows. failure_rows f = Inr rows"
proof (cases "js_match_g re_expected f")
  case None
  then show ?thesis
    using split_str_line[of "trim f"] by (auto simp: failure_rows_def Let_def)
next
  case (Some ms)
  have "\<forall>mt\<in>set (js_match_all re_assert f). \<exists>r. row_of_match mt = Inr r"
    using row_of_match_assert by blast
  then have "\<forall>mt\<in>set (js_match_all re_assert f). row_of_match mt = Inr (projr (row_of_match mt))"
    by auto
  from collect_Inr[OF this] show ?thesis using Some by (simp add: failure_rows_def)
qed

lemma collect_failure_rows_total: "\<exists>rows. collect failure_rows fs = Inr rows"
proof -
  have "\<forall>f\<in>set fs. failure_rows f = Inr (projr (failure_rows f))"
    using failure_rows_total by (metis sum.sel(2))
  from collect_Inr[OF this] show ?thesis by blast
qed

lemma run_catch_emits:
  assumes "marker_counts (case e_stdout err of None \<Rightarrow> [] | Some t \<Rightarrow> trim t) = Some (testCount, errorCount)"
  shows "\<exists>r t. run_catch js inp err = (None, [r]) \<and> status r = ''error'' \<and> tests r = [t]
           \<and> score t = Some (fail_score inp testCount errorCount)"
proof -
  obtain rows where "collect failure_rows (tl (js_split re_header (case e_stdout err of None \<Rightarrow> [] | Some t \<Rightarrow> trim t))) = Inr rows"
    using collect_failure_rows_total by blast
  with assms show ?thesis
    by (simp add: run_catch_def Let_def)
qed

lemma run_catch_markdown:
  assumes "marker_counts (case e_stdout err of None \<Rightarrow> [] | Some t \<Rightarrow> trim t) = Some (testCount, errorCount)"
  shows "\<exists>r t tail. run_catch js inp err = (None, [r]) \<and> tests r = [t]
           \<and> score t = Some (fail_score inp testCount errorCount)
           \<and> markdown r = fail_summary js inp testCount errorCount (fail_score inp testCount errorCount) @ tail"
proof -
  obtain rows where "collect failure_rows (tl (js_split re_header (case e_stdout err of None \<Rightarrow> [] | Some t \<Rightarrow> trim t))) = Inr rows"
    using collect_failure_rows_total by blast
  with assms show ?thesis
    by (simp add: run_catch_def Let_def)
qed

subsection \<open>The classifier on a block without a comparison\<close>
















subsection \<open>The first match of the comparison expression\<close>






lemma not_ws_marks: "\<not> am WS CHR '':''" "\<not> am WS CHR ''<''" "\<not> am WS CHR ''b''"
  by (simp_all add: is_ws_def)















subsection \<open>The matches of the comparison expression are the comparisons of the block\<close>









section \<open>Rounding to a double\<close>

lemma pow2_pos [simp]: "0 < pow2 e"
  by (simp add: pow2_def zero_less_power_int)

lemma pow2_add: "pow2 (a + b) = pow2 a * pow2 b"
  by (simp add: pow2_def power_int_add)

lemma pow2_mono: "a \<le> b \<Longrightarrow> pow2 a \<le> pow2 b"
  by (simp add: pow2_def power_int_increasing)

lemma pow2_strict_mono: "a < b \<Longrightarrow> pow2 a < pow2 b"
  by (simp add: pow2_def power_int_strict_increasing)

lemma pow2_nat: "0 \<le> e \<Longrightarrow> pow2 e = of_int (2 ^ nat e)"
  by (simp add: pow2_def power_int_def)

lemma pow2_0 [simp]: "pow2 0 = 1"
  by (simp add: pow2_def)

lemma pow2_neg:
  assumes "e \<le> 0"
  shows "pow2 e = 1 / of_int (2 ^ nat (- e))"
proof -
  have "pow2 e * pow2 (- e) = 1" using pow2_add[of e "- e"] by simp
  moreover have "pow2 (- e) = of_int (2 ^ nat (- e))" using assms by (intro pow2_nat) simp
  ultimately have "pow2 e * of_int (2 ^ nat (- e)) = 1" by simp
  then show ?thesis by (simp add: field_simps)
qed

lemma ilog2_bounds:
  assumes "0 < x"
  shows "pow2 (ilog2 x) \<le> x \<and> x < pow2 (ilog2 x + 1)"
proof (cases "1 \<le> x")
  case True
  define n where "n = \<lfloor>x\<rfloor>"
  have n1: "1 \<le> n" using True by (simp add: n_def le_floor_iff)
  then have n0: "0 < n" by simp
  define b where "b = bitlen n"
  have b1: "1 \<le> b" using n0 by (simp add: b_def bitlen_alt_def)
  from bitlen_bounds[OF n0] have bb: "2 ^ nat (b - 1) \<le> n" "n < 2 ^ nat b" by (simp_all add: b_def)
  have il: "ilog2 x = b - 1" using True by (simp add: ilog2_def n_def b_def)
  have "pow2 (b - 1) = of_int (2 ^ nat (b - 1))" using b1 by (intro pow2_nat) simp
  also have "\<dots> \<le> of_int n" using bb(1) by (simp only: of_int_le_iff)
  also have "\<dots> \<le> x" by (simp add: n_def)
  finally have lo: "pow2 (b - 1) \<le> x" .
  have "n + 1 \<le> 2 ^ nat b" using bb(2) by simp
  then have "(of_int (n + 1) :: rat) \<le> of_int (2 ^ nat b)" by (simp only: of_int_le_iff)
  moreover have "x < of_int (n + 1)" using floor_correct[of x] by (simp add: n_def)
  ultimately have "x < of_int (2 ^ nat b)" by (rule less_le_trans[rotated])
  moreover have "pow2 b = of_int (2 ^ nat b)" using b1 by (intro pow2_nat) simp
  ultimately have "x < pow2 (b - 1 + 1)" by simp
  with lo il show ?thesis by simp
next
  case False
  then have x1: "x < 1" by simp
  define y where "y = 1 / x"
  have y1: "1 < y" using assms x1 by (simp add: y_def)
  define cl where "cl = \<lceil>y\<rceil>"
  have cl2: "2 \<le> cl" using y1 by (simp add: cl_def le_ceiling_iff)
  define kk where "kk = bitlen (cl - 1)"
  have pos: "0 < cl - 1" using cl2 by simp
  have k1: "1 \<le> kk" using pos by (simp add: kk_def bitlen_alt_def)
  from bitlen_bounds[OF pos] have bb: "2 ^ nat (kk - 1) \<le> cl - 1" "cl - 1 < 2 ^ nat kk"
    by (simp_all add: kk_def)
  have il: "ilog2 x = - kk" using False by (simp add: ilog2_def y_def cl_def kk_def)
  have ycl: "y \<le> of_int cl" by (simp add: cl_def)
  have cly: "of_int (cl - 1) < y" unfolding cl_def by linarith
  have "cl \<le> 2 ^ nat kk" using bb(2) by simp
  then have "(of_int cl :: rat) \<le> of_int (2 ^ nat kk)" by (simp only: of_int_le_iff)
  with ycl have yle: "y \<le> of_int (2 ^ nat kk)" by (rule order_trans)
  have "(of_int (2 ^ nat (kk - 1)) :: rat) \<le> of_int (cl - 1)" using bb(1) by (simp only: of_int_le_iff)
  from this cly have ylo: "of_int (2 ^ nat (kk - 1)) < y" by (rule le_less_trans)
  have xy: "x = 1 / y" using assms by (simp add: y_def)
  have p1: "pow2 (- kk) = 1 / of_int (2 ^ nat kk)" using k1 pow2_neg[of "- kk"] by simp
  have p2: "pow2 (- kk + 1) = 1 / of_int (2 ^ nat (kk - 1))" using k1 pow2_neg[of "- kk + 1"] by simp
  have "pow2 (- kk) \<le> x" unfolding p1 xy using yle y1
    by (intro divide_left_mono) (auto intro: mult_pos_pos)
  moreover have "x < pow2 (- kk + 1)" unfolding p2 xy using ylo y1
    by (intro divide_strict_left_mono) (auto intro: mult_pos_pos)
  ultimately show ?thesis using il by simp
qed

lemma ilog2_unique:
  assumes "pow2 e \<le> x" "x < pow2 (e + 1)"
  shows "ilog2 x = e"
proof -
  have x0: "0 < x" using assms(1) pow2_pos[of e] by linarith
  from ilog2_bounds[OF x0] have b: "pow2 (ilog2 x) \<le> x" "x < pow2 (ilog2 x + 1)" by simp_all
  have "\<not> ilog2 x < e"
  proof
    assume "ilog2 x < e"
    then have "pow2 (ilog2 x + 1) \<le> pow2 e" by (intro pow2_mono) simp
    with b(2) assms(1) show False by simp
  qed
  moreover have "\<not> e < ilog2 x"
  proof
    assume "e < ilog2 x"
    then have "pow2 (e + 1) \<le> pow2 (ilog2 x)" by (intro pow2_mono) simp
    with b(1) assms(2) show False by simp
  qed
  ultimately show ?thesis by simp
qed



lemma round_even_range: "\<lfloor>y\<rfloor> \<le> round_even y \<and> round_even y \<le> \<lfloor>y\<rfloor> + 1"
  by (simp add: round_even_def Let_def)

lemma round_even_of_int [simp]: "round_even (of_int n) = n"
  by (simp add: round_even_def)

lemma round_even_eqI:
  assumes "of_int r - 1 / 2 < y" "y < of_int r + 1 / 2"
  shows "round_even y = r"
proof (cases "of_int r \<le> y")
  case True
  then have "\<lfloor>y\<rfloor> = r" using assms by (intro floor_unique) auto
  then show ?thesis using assms by (simp add: round_even_def)
next
  case False
  then have "\<lfloor>y\<rfloor> = r - 1" using assms by (intro floor_unique) auto
  then show ?thesis using assms False by (simp add: round_even_def)
qed

lemma round_even_mono:
  assumes "x \<le> y"
  shows "round_even x \<le> round_even y"
proof -
  have fl: "\<lfloor>x\<rfloor> \<le> \<lfloor>y\<rfloor>" using assms by (rule floor_mono)
  show ?thesis
  proof (cases "\<lfloor>x\<rfloor> = \<lfloor>y\<rfloor>")
    case False
    with fl have "\<lfloor>x\<rfloor> + 1 \<le> \<lfloor>y\<rfloor>" by simp
    with round_even_range[of x] round_even_range[of y] show ?thesis by linarith
  next
    case True
    then have "x - of_int \<lfloor>x\<rfloor> \<le> y - of_int \<lfloor>y\<rfloor>" using assms by simp
    with True show ?thesis
      by (auto simp: round_even_def Let_def)
  qed
qed

lemma round_even_le: "y \<le> of_int N \<Longrightarrow> round_even y \<le> N"
  using round_even_mono[of y "of_int N"] by simp


lemma pow2_nz [simp]: "pow2 e \<noteq> 0"
  using pow2_pos[of e] by (simp only: less_imp_neq[THEN not_sym] not_False_eq_True)

lemma pow2_diff: "pow2 (a - b) = pow2 a / pow2 b"
proof -
  have "pow2 (a - b) * pow2 b = pow2 a" using pow2_add[of "a - b" b] by simp
  then show ?thesis by (simp add: nonzero_eq_divide_eq)
qed

lemma fl_pos_eq:
  assumes "pow2 e \<le> x" "x < pow2 (e + 1)"
  shows "fl_pos x =
    (let q = max e (- 1022) - 52; v = of_int (round_even (x / pow2 q)) * pow2 q
     in if pow2 1024 \<le> v then None else Some v)"
  using ilog2_unique[OF assms] by (simp add: fl_pos_def)

lemma fl_eqI:
  assumes "pow2 e \<le> x" "x < pow2 (e + 1)" "- 1022 \<le> e" "e \<le> 1022"
    and "of_int r - 1 / 2 < x / pow2 (e - 52)" "x / pow2 (e - 52) < of_int r + 1 / 2"
  shows "fl x = Num (of_int r * pow2 (e - 52))"
proof -
  have x0: "0 < x" using assms(1) pow2_pos[of e] by linarith
  have re: "round_even (x / pow2 (e - 52)) = r" using assms(5,6) by (rule round_even_eqI)
  have "x / pow2 (e - 52) < pow2 (e + 1) / pow2 (e - 52)"
    using assms(2) by (simp add: divide_strict_right_mono)
  also have "\<dots> = pow2 53" using pow2_diff[of "e + 1" "e - 52"] by simp
  also have "\<dots> = of_int (2 ^ 53)" by (simp add: pow2_def)
  finally have "x / pow2 (e - 52) \<le> of_int (2 ^ 53)" by simp
  then have "r \<le> 2 ^ 53" using round_even_le re by blast
  then have "(of_int r :: rat) \<le> of_int (2 ^ 53)" by (simp only: of_int_le_iff)
  then have "of_int r * pow2 (e - 52) \<le> of_int (2 ^ 53) * pow2 (e - 52)"
    by (intro mult_right_mono) (auto simp: less_imp_le)
  also have "of_int (2 ^ 53) * pow2 (e - 52) = pow2 53 * pow2 (e - 52)" by (simp add: pow2_def)
  also have "\<dots> = pow2 (e + 1)" using pow2_add[of 53 "e - 52"] by (simp add: add.commute)
  also have "\<dots> < pow2 1024" using assms(4) by (intro pow2_strict_mono) simp
  finally have "\<not> pow2 1024 \<le> of_int r * pow2 (e - 52)" by simp
  moreover have "max e (- 1022) = e" using assms(3) by simp
  ultimately have "fl_pos x = Some (of_int r * pow2 (e - 52))"
    using fl_pos_eq[OF assms(1,2)] re by (simp add: Let_def)
  with x0 show ?thesis by (simp add: fl_def)
qed

lemma fl_third: "fl (1 / 3) = Num (6004799503160661 / 18014398509481984)"
  using fl_eqI[of "- 2" "1 / 3" 6004799503160661] by (simp add: pow2_def)

lemma fl_one: "fl 1 = Num 1"
  using fl_eqI[of 0 1 "2 ^ 52"] by (simp add: pow2_def)

lemma round2_eqI:
  assumes "0 \<le> x" "of_int n - 1 / 2 \<le> x * 100" "x * 100 < of_int n + 1 / 2"
  shows "round2 x = of_int n / 100"
proof -
  have "\<lfloor>x * 100 + 1 / 2\<rfloor> = n" using assms(2,3) by (intro floor_unique) auto
  with assms(1) show ?thesis by (simp add: round2_def)
qed

lemma fl_ten_thirds: "fl (30023997515803305 / 9007199254740992) = Num (3752999689475413 / 1125899906842624)"
  using fl_eqI[of 1 "30023997515803305 / 9007199254740992" 7505999378950826] by (simp add: pow2_def)

lemma fl_333: "fl (333 / 100) = Num (1874623344892969 / 562949953421312)"
  using fl_eqI[of 1 "333 / 100" 7498493379571876] by (simp add: pow2_def)

lemma round2_ten_thirds: "round2 (3752999689475413 / 1125899906842624) = 333 / 100"
  using round2_eqI[of "3752999689475413 / 1125899906842624" 333] by simp

lemma ex_score: "to_fixed2 (num_mul (num_div (num_sub (Num 3) (Num 2)) (Num 3)) (Num 10)) = Num (1874623344892969 / 562949953421312)"
  by (simp add: num_sub_def fl_one fl_third fl_ten_thirds to_fixed2_def round2_ten_thirds fl_333)

subsection \<open>Rounding is monotone\<close>













section \<open>The shape of every result\<close>

lemma run_setup_shape: "run_setup inp sr = Inr (b, out) \<Longrightarrow> list_all shape out"
  by (auto simp: run_setup_def shape_def Let_def split: if_splits option.splits spawn_outcome.splits)

lemma build_shape: "build inp br = (b, out) \<Longrightarrow> list_all shape out"
  by (auto simp: build_def shape_def Let_def split: exec_result.splits)

lemma run_catch_shape: "run_catch js inp err = (e, out) \<Longrightarrow> list_all shape out"
  by (auto simp: run_catch_def shape_def Let_def split: option.splits sum.splits prod.splits)

lemma run_shape: "run js inp rr = (e, out) \<Longrightarrow> list_all shape out"
  by (auto simp: run_def shape_def Let_def dest: run_catch_shape split: exec_result.splits option.splits)

lemma ex_failed_counts: "marker_counts (trim ex_failed) = Some (3, 2)"
  by code_simp

lemma ex_failed_rows:
  "collect failure_rows (tl (js_split re_header (trim ex_failed)))
     = Inr [[(Cells ''sum'' ''[3]'' ''[4]'', Cells ''sum'' ''[3]'' ''[4]'')],
            [(Cells ''Test failed'' ''1'' ''2'', Cells ''Test failed'' ''1'' ''2'')]]"
  by code_simp

lemma ex_cfg_inputs: "\<exists>inp. getInputs js ex_cfg = Inr inp \<and> setupCommand inp = []"
  by (simp add: getInputs_def getInput_def opt_input_def ex_cfg_def trim_def is_ws_def Let_def)

text \<open>
  C10. Every result object the program hands to \<open>core.setOutput\<close>, after a failed setup, a
  failed build, a passing run or a failing run, has \<open>version\<close> 1 and a \<open>tests\<close> array of
  exactly one entry.
\<close>

theorem result_version_one_test:
  "\<forall>r\<in>set (snd (main js cfg sr br rr)). version r = 1 \<and> length (tests r) = 1"
proof -
  have "list_all shape (snd (main js cfg sr br rr))"
    by (auto simp: main_def split: sum.splits prod.splits bool.splits
        dest: run_setup_shape build_shape run_shape)
  then show ?thesis
    by (simp add: list_all_iff shape_def)
qed

theorem result_version_one_test_witness:
  "snd (main ex_js ex_cfg (Spawn_returned \<lparr> sp_error = None, sp_stdout = None, sp_stderr = None \<rparr>)
          (Returned []) (Threw \<lparr> e_stdout = Some ex_failed, e_stderr = Some [] \<rparr>)) \<noteq> []
   \<and> list_all (\<lambda>r. version r = 1 \<and> length (tests r) = 1)
         (snd (main ex_js ex_cfg (Spawn_returned \<lparr> sp_error = None, sp_stdout = None, sp_stderr = None \<rparr>)
          (Returned []) (Threw \<lparr> e_stdout = Some ex_failed, e_stderr = Some [] \<rparr>)))"
proof -
  obtain inp where inp: "getInputs ex_js ex_cfg = Inr inp" "setupCommand inp = []"
    using ex_cfg_inputs by blast
  have "snd (main ex_js ex_cfg (Spawn_returned \<lparr> sp_error = None, sp_stdout = None, sp_stderr = None \<rparr>)
          (Returned []) (Threw \<lparr> e_stdout = Some ex_failed, e_stderr = Some [] \<rparr>)) \<noteq> []"
    using inp
    by (simp add: main_def run_setup_def build_def run_def run_catch_def ex_failed_counts
        ex_failed_rows Let_def)
  then show ?thesis
    using result_version_one_test [of ex_js ex_cfg
        "Spawn_returned \<lparr> sp_error = None, sp_stdout = None, sp_stderr = None \<rparr>"
        "Returned []" "Threw \<lparr> e_stdout = Some ex_failed, e_stderr = Some [] \<rparr>"]
    by (simp add: list_all_iff)
qed

section \<open>The marker line\<close>

lemma ex_failed_trim: "trim ex_failed = ''JUnit version 4.13.2\<newline>..E.E\<newline>'' @ ex_failed_tail"
  by code_simp

text \<open>
  C1, as claimed: a marker line of length \<open>N\<close> with \<open>k\<close> failure glyphs gives the total
  \<open>N\<close>. On the marker line \<open>..E.E\<close>, of length 5, the program counts 3 tests: the periods.
\<close>

theorem marker_counts_not_length:
  "map_option dots_of (js_exec re_summary (trim ex_failed)) = Some ''..E.E''
   \<and> marker_counts (trim ex_failed) = Some (3, 2)
   \<and> marker_counts (trim ex_failed) \<noteq> Some (length ''..E.E'', 2)"
  by code_simp

lemma marker_counts_shape:
  assumes "out = pre @ ''version'' @ ws @ d1 @ ''.'' @ d2 @ ''.'' @ d3 @ [CHR 0x0A] @ dots @ CHR 0x0A # rest"
    and "CHR ''v'' \<notin> set pre"
    and "\<forall>x\<in>set ws. is_ws x"
    and "d1 \<noteq> []" "\<forall>x\<in>set d1. is_digit x"
    and "d2 \<noteq> []" "\<forall>x\<in>set d2. is_digit x"
    and "d3 \<noteq> []" "\<forall>x\<in>set d3. is_digit x"
    and "\<forall>x\<in>set dots. \<not> is_lt x"
    and "filter (\<lambda>x. x = CHR ''.'') dots \<noteq> []"
    and "filter (\<lambda>x. x = CHR ''E'' \<or> x = CHR ''e'') dots \<noteq> []"
  shows "marker_counts out = Some (length (filter (\<lambda>x. x = CHR ''.'') dots),
                                    length (filter (\<lambda>x. x = CHR ''E'' \<or> x = CHR ''e'') dots))"
proof -
  obtain mt where mt: "js_exec re_summary out = Some mt" "dots_of mt = dots"
    using js_exec_summary[OF assms(1-10)] by blast
  have "am (C CHR ''.'') = (\<lambda>x. x = CHR ''.'')" by (rule ext) simp
  then have p: "js_match_g re_period dots = Some (map (\<lambda>x. [x]) (filter (\<lambda>x. x = CHR ''.'') dots))"
    using js_match_g_atom[of re_period "C CHR ''.''" dots] assms(11)
    by (simp add: re_period_def)
  have "am (CI CHR ''E'') = (\<lambda>x. x = CHR ''E'' \<or> x = CHR ''e'')" by (rule ext) (rule canon_E)
  then have "filter (am (CI CHR ''E'')) dots = filter (\<lambda>x. x = CHR ''E'' \<or> x = CHR ''e'') dots"
    by (simp only:)
  then have e: "js_match_g re_E dots = Some (map (\<lambda>x. [x]) (filter (\<lambda>x. x = CHR ''E'' \<or> x = CHR ''e'') dots))"
    using js_match_g_atom[of re_E "CI CHR ''E''" dots] assms(12)
    by (simp add: re_E_def)
  show ?thesis using mt p e by (simp add: marker_counts_def)
qed

text \<open>
  C1, amended: take a run whose output (trimmed, when the run exits with a status other than
  zero) holds, behind a text without the letter \<open>v\<close>, the word \<open>version\<close>, white space, a
  version number of three parts, a line feed, a marker line and a line feed. When the run
  exits with a status other than zero and the marker line has at least one period and at
  least one \<open>E\<close> or \<open>e\<close>, the program counts the periods as the tests and the \<open>E\<close> and
  \<open>e\<close> as the failed tests: the score and the first line of the markdown are those of these
  two counts. When the run exits with status zero, the program reports the length of the
  marker line as the number of tests passed.
\<close>

theorem run_counts_periods:
  assumes "run_text rr = pre @ ''version'' @ ws @ d1 @ ''.'' @ d2 @ ''.'' @ d3 @ [CHR 0x0A] @ dots @ CHR 0x0A # rest"
    and "CHR ''v'' \<notin> set pre"
    and "\<forall>x\<in>set ws. is_ws x"
    and "d1 \<noteq> []" "\<forall>x\<in>set d1. is_digit x"
    and "d2 \<noteq> []" "\<forall>x\<in>set d2. is_digit x"
    and "d3 \<noteq> []" "\<forall>x\<in>set d3. is_digit x"
    and "\<forall>x\<in>set dots. \<not> is_lt x"
  shows "(\<forall>err. rr = Threw err \<longrightarrow> 0 < periods dots \<longrightarrow> 0 < failures dots \<longrightarrow>
            (\<exists>r t tail. run js inp rr = (None, [r]) \<and> tests r = [t]
               \<and> score t = Some (fail_score inp (periods dots) (failures dots))
               \<and> markdown r = fail_summary js inp (periods dots) (failures dots)
                                  (fail_score inp (periods dots) (failures dots)) @ tail))
       \<and> (\<forall>rs. rr = Returned rs \<longrightarrow>
            (\<exists>r. run js inp rr = (None, [r])
               \<and> markdown r = check_mark @ '' '' @ show_nat (length dots) @ '' test''
                                @ (if 1 < length dots then ''s'' else []) @ '' passed''))"
proof (intro conjI allI impI)
  fix err
  assume rr: "rr = Threw err" and p: "0 < periods dots" and f: "0 < failures dots"
  have "marker_counts (run_text rr) = Some (periods dots, failures dots)"
    unfolding periods_def failures_def
    using p f by (intro marker_counts_shape[OF assms]) (auto simp: periods_def failures_def)
  then have "marker_counts (case e_stdout err of None \<Rightarrow> [] | Some t \<Rightarrow> trim t)
      = Some (periods dots, failures dots)"
    using rr by (simp add: run_text_def)
  from run_catch_markdown[OF this, of js inp]
  show "\<exists>r t tail. run js inp rr = (None, [r]) \<and> tests r = [t]
               \<and> score t = Some (fail_score inp (periods dots) (failures dots))
               \<and> markdown r = fail_summary js inp (periods dots) (failures dots)
                                  (fail_score inp (periods dots) (failures dots)) @ tail"
    using rr by (simp add: run_def)
next
  fix rs
  assume rr: "rr = Returned rs"
  obtain mt where "js_exec re_summary (run_text rr) = Some mt" "dots_of mt = dots"
    using js_exec_summary[OF assms] by blast
  then show "\<exists>r. run js inp rr = (None, [r])
               \<and> markdown r = check_mark @ '' '' @ show_nat (length dots) @ '' test''
                                @ (if 1 < length dots then ''s'' else []) @ '' passed''"
    using rr by (simp add: run_def run_text_def Let_def)
qed

theorem run_counts_periods_witness:
  "CHR ''v'' \<notin> set ''JUnit ''
   \<and> run_text (Threw \<lparr> e_stdout = Some ex_failed, e_stderr = Some [] \<rparr>)
       = ''JUnit '' @ ''version'' @ '' '' @ ''4'' @ ''.'' @ ''13'' @ ''.'' @ ''2'' @ [CHR 0x0A] @ ''..E.E'' @ CHR 0x0A # ex_failed_tail
   \<and> periods ''..E.E'' = 3 \<and> failures ''..E.E'' = 2
   \<and> (\<exists>r t tail. run ex_js ex_inputs (Threw \<lparr> e_stdout = Some ex_failed, e_stderr = Some [] \<rparr>) = (None, [r])
         \<and> tests r = [t] \<and> score t = Some (fail_score ex_inputs 3 2)
         \<and> markdown r = fail_summary ex_js ex_inputs 3 2 (fail_score ex_inputs 3 2) @ tail)
   \<and> (\<exists>r. run ex_js ex_inputs (Returned (trim ex_failed)) = (None, [r])
         \<and> markdown r = check_mark @ '' 5 tests passed'')"
proof -
  have t: "run_text (Threw \<lparr> e_stdout = Some ex_failed, e_stderr = Some [] \<rparr>)
       = ''JUnit '' @ ''version'' @ '' '' @ ''4'' @ ''.'' @ ''13'' @ ''.'' @ ''2'' @ [CHR 0x0A] @ ''..E.E'' @ CHR 0x0A # ex_failed_tail"
    by (simp add: run_text_def ex_failed_trim)
  have r: "run_text (Returned (trim ex_failed))
       = ''JUnit '' @ ''version'' @ '' '' @ ''4'' @ ''.'' @ ''13'' @ ''.'' @ ''2'' @ [CHR 0x0A] @ ''..E.E'' @ CHR 0x0A # ex_failed_tail"
    by (simp add: run_text_def ex_failed_trim)
  have c: "periods ''..E.E'' = 3" "failures ''..E.E'' = 2" by (simp_all add: periods_def failures_def)
  have s: "show_nat (length ''..E.E'') = ''5''" by code_simp
  have 1: "\<exists>r t tail. run ex_js ex_inputs (Threw \<lparr> e_stdout = Some ex_failed, e_stderr = Some [] \<rparr>) = (None, [r])
         \<and> tests r = [t] \<and> score t = Some (fail_score ex_inputs 3 2)
         \<and> markdown r = fail_summary ex_js ex_inputs 3 2 (fail_score ex_inputs 3 2) @ tail"
    using run_counts_periods [OF t, of ex_js ex_inputs] c
    by (simp add: is_ws_def is_digit_def is_lt_def)
  have 2: "\<exists>r. run ex_js ex_inputs (Returned (trim ex_failed)) = (None, [r])
         \<and> markdown r = check_mark @ '' 5 tests passed''"
    using run_counts_periods [OF r, of ex_js ex_inputs] s
    by (simp add: is_ws_def is_digit_def is_lt_def)
  show ?thesis using t c 1 2 by simp
qed

section \<open>The inputs\<close>

text \<open>
  C9. The claim is that the \<open>test-class\<close> input is split on commas, each identifier trimmed.
  \<open>getInputs\<close> passes \<open>split\<close> the string \<open>'\s*,\s*  '\<close>, not a regular expression:
  the input \<open>CalcTest, ListTest\<close> stays one identifier.
\<close>

theorem getInputs_test_class_not_split:
  "\<exists>inp. getInputs js ex_cfg = Inr inp \<and> testClasses inp = [''CalcTest, ListTest'']"
  by (simp add: getInputs_def getInput_def ex_cfg_def split_str_def trim_def is_ws_def Let_def)

section \<open>A run that cannot be read\<close>

text \<open>
  C3. The claim is that every error path hands one result to the sink. When the test run
  exits with a status other than zero and an empty standard output, the summary expression
  does not match, \<open>match[2]\<close> throws a \<open>TypeError\<close> inside the \<open>catch\<close> block, and nothing
  is handed to the sink, whatever the standard error holds.
\<close>

theorem run_empty_stdout_throws:
  "run js inp (Threw \<lparr> e_stdout = Some [], e_stderr = se \<rparr>) = (Some TypeError, [])"
  by (simp add: run_def run_catch_def marker_counts_def js_exec_def re_summary_def lit_def trim_def)

section \<open>A passing run\<close>

text \<open>
  C4, as claimed: a run that detects no test fails and never reports the score \<open>maxScore\<close>.
  A run that exits with status zero and an empty marker line is reported as passed with the
  score \<open>maxScore\<close>.
\<close>

theorem zero_tests_pass_scores_max:
  "map_option dots_of (js_exec re_summary ex_no_tests) = Some []
   \<and> map (\<lambda>r. (status r, map score (tests r))) (snd (run ex_js ex_inputs (Returned ex_no_tests)))
       = [(''pass'', [Some (maxScore ex_inputs)])]"
  by code_simp

text \<open>
  C4, amended: for every run that exits with status zero and whose output has the summary
  line, whatever the number of tests on the marker line (zero included), the program hands
  over one result, with status \<open>pass\<close> and the score \<open>maxScore\<close>.
\<close>

theorem pass_run_scores_max:
  assumes "js_exec re_summary rs = Some mt"
  shows "\<exists>r t. run js inp (Returned rs) = (None, [r]) \<and> status r = ''pass'' \<and> tests r = [t]
           \<and> score t = Some (maxScore inp)"
  using assms by (simp add: run_def Let_def)

lemma ex_no_tests_summary: "js_exec re_summary ex_no_tests = Some [Some ''version 4.13.2\<newline>\<newline>'', Some ''.2'', Some [], Some ''\<newline>'']"
  by code_simp

theorem pass_run_scores_max_witness:
  "js_exec re_summary ex_no_tests = Some [Some ''version 4.13.2\<newline>\<newline>'', Some ''.2'', Some [], Some ''\<newline>'']
   \<and> (\<exists>r t. run ex_js ex_inputs (Returned ex_no_tests) = (None, [r]) \<and> status r = ''pass''
         \<and> tests r = [t] \<and> score t = Some (maxScore ex_inputs))"
  using pass_run_scores_max [OF ex_no_tests_summary, of ex_js ex_inputs] ex_no_tests_summary
  by simp

section \<open>The score\<close>

subsection \<open>Scores of the example runs\<close>

lemma ex_fail_score: "fail_score ex_inputs 3 2 = Num (1874623344892969 / 562949953421312)"
  using ex_score by (simp add: fail_score_def ex_inputs_def)













subsection \<open>Partial credit\<close>

text \<open>
  Claim C2, the example. With partial credit, the run with the marker line \<open>..E.E\<close> and
  a maximal score of 10 does not score 6: \<open>run\<close> counts three tests, the periods, of which
  two failed, and the score is the double next to 3.33.
\<close>

theorem partial_credit_example_not_six:
  "map (\<lambda>r. map score (tests r))
       (snd (run ex_js ex_inputs (Threw \<lparr> e_stdout = Some ex_failed, e_stderr = Some [] \<rparr>)))
     = [[Some (Num (1874623344892969 / 562949953421312))]]
   \<and> Num (1874623344892969 / 562949953421312) \<noteq> Num 6"
proof -
  have "marker_counts (case e_stdout \<lparr> e_stdout = Some ex_failed, e_stderr = Some [] \<rparr> of None \<Rightarrow> [] | Some t \<Rightarrow> trim t) = Some (3, 2)"
    by (simp add: ex_failed_counts)
  from run_catch_emits[OF this, of ex_js ex_inputs] show ?thesis
    by (auto simp: run_def ex_fail_score)
qed

text \<open>
  Claim C2, amended. With partial credit, a failing run on whose marker line \<open>run\<close> counts
  \<open>testCount\<close> periods and \<open>errorCount\<close> failure glyphs emits one result whose score is
  \<open>((testCount - errorCount) / testCount * maxScore).toFixed(2)\<close> read back as a number,
  every operation rounded to a double.
\<close>

theorem partial_credit_score:
  assumes "partialCredit inp"
    and "marker_counts (run_text (Threw err)) = Some (testCount, errorCount)"
  shows "\<exists>r t. run js inp (Threw err) = (None, [r]) \<and> tests r = [t]
           \<and> score t = Some (to_fixed2 (num_mul (num_div (num_sub (Num (of_nat testCount)) (Num (of_nat errorCount)))
                                                         (Num (of_nat testCount)))
                                                (maxScore inp)))"
proof -
  from assms(2) have "marker_counts (case e_stdout err of None \<Rightarrow> [] | Some t \<Rightarrow> trim t) = Some (testCount, errorCount)"
    by (simp add: run_text_def)
  from run_catch_emits[OF this, of js inp] show ?thesis
    using assms(1) by (auto simp: run_def fail_score_def)
qed

theorem partial_credit_score_witness:
  "partialCredit ex_inputs
   \<and> marker_counts (run_text (Threw \<lparr> e_stdout = Some ex_failed, e_stderr = Some [] \<rparr>)) = Some (3, 2)
   \<and> (\<exists>r t. run ex_js ex_inputs (Threw \<lparr> e_stdout = Some ex_failed, e_stderr = Some [] \<rparr>) = (None, [r])
         \<and> tests r = [t] \<and> score t = Some (Num (1874623344892969 / 562949953421312)))"
proof -
  have p: "partialCredit ex_inputs" by (simp add: ex_inputs_def)
  have m: "marker_counts (run_text (Threw \<lparr> e_stdout = Some ex_failed, e_stderr = Some [] \<rparr>)) = Some (3, 2)"
    by (simp add: run_text_def ex_failed_counts)
  have "maxScore ex_inputs = Num 10" by (simp add: ex_inputs_def)
  then show ?thesis
    using partial_credit_score [OF p m, of ex_js] p m ex_score by simp
qed

subsection \<open>The score and the maximal score\<close>




subsection \<open>Without partial credit\<close>





section \<open>The classifier on a block with a comparison\<close>








section \<open>The classifier on a block without a comparison\<close>







end
